theory Spec2Isabelle
  imports Main "HOL-Library.Sublist"
begin

section \<open>JavaScript string and array primitives used by the script\<close>

text \<open>
  A JavaScript string is a sequence of code units and an array a sequence of elements;
  both are modelled as lists.  \<open>String.prototype.slice\<close> and \<open>Array.prototype.slice\<close>
  treat their indices alike: a negative index counts from the end, and every index is
  clamped to the range from \<open>0\<close> to the length.
\<close>

definition slice :: "'a list \<Rightarrow> int \<Rightarrow> int \<Rightarrow> 'a list" where
  "slice xs start fin =
     (let len = int (length xs);
          k = (if start < 0 then max (len + start) 0 else min start len);
          final = (if fin < 0 then max (len + fin) 0 else min fin len)
      in take (nat (final - k)) (drop (nat k) xs))"

text \<open>\<open>xs.slice(start)\<close>: the end index defaults to the length.\<close>

definition slice_from :: "'a list \<Rightarrow> int \<Rightarrow> 'a list" where
  "slice_from xs start = slice xs start (int (length xs))"

text \<open>
  \<open>s.lastIndexOf(c)\<close> for a one-unit search string: the greatest index holding \<open>c\<close>,
  or \<open>-1\<close> when there is none.
\<close>

definition lastIndexOf :: "'a list \<Rightarrow> 'a \<Rightarrow> int" where
  "lastIndexOf s c =
     (if c \<in> set s
      then int (length s) - 1 - int (length (takeWhile (\<lambda>x. x \<noteq> c) (rev s)))
      else - 1)"

text \<open>
  \<open>s.includes(t)\<close>: \<open>t\<close> occurs in \<open>s\<close> at some position, compared code unit by code
  unit (so with regard to case).
\<close>

fun includes_str :: "'a list \<Rightarrow> 'a list \<Rightarrow> bool" where
  "includes_str [] t = (t = [])"
| "includes_str (x # xs) t = (prefix t (x # xs) \<or> includes_str xs t)"

section \<open>Record identifiers\<close>

text \<open>
  \<^verbatim>\<open>const getRecordId = (uri: string) => {
    const idx = uri.lastIndexOf('/');
    return uri.slice(idx + 1);
  };\<close>
\<close>

definition getRecordId :: "string \<Rightarrow> string" where
  "getRecordId uri = (let idx = lastIndexOf uri (CHR ''/'') in slice_from uri (idx + 1))"

section \<open>Batch partitioning\<close>

text \<open>
  \<^verbatim>\<open>const chunked = <T>(arr: T[], size: number): T[][] => {
    const chunks: T[][] = [];
    for (let idx = 0; idx < arr.length; idx += size) {
      chunks.push(arr.slice(idx, idx + size));
    }
    return chunks;
  };\<close>
  The loop is guarded by \<open>idx < arr.length\<close> only, so for a \<open>size\<close> that is not positive
  it need not end: the result is an option, \<open>None\<close> standing for a call that never
  returns.  The batch size is an integer (\<open>sz\<close> for the source's \<open>size\<close>).
\<close>

partial_function (option) chunked_loop ::
  "'a list \<Rightarrow> int \<Rightarrow> int \<Rightarrow> 'a list list \<Rightarrow> 'a list list option" where
  "chunked_loop arr sz idx chunks =
     (if idx < int (length arr)
      then chunked_loop arr sz (idx + sz) (chunks @ [slice arr idx (idx + sz)])
      else Some chunks)"

declare chunked_loop.simps [code]

definition chunked :: "'a list \<Rightarrow> int \<Rightarrow> 'a list list option" where
  "chunked arr sz = chunked_loop arr sz 0 []"

text \<open>
  A reference partition for the proofs: cut off \<open>n\<close> elements at a time.  It is not
  part of the script.
\<close>

fun chunks_of :: "nat \<Rightarrow> 'a list \<Rightarrow> 'a list list" where
  "chunks_of n xs = (if n = 0 \<or> xs = [] then [] else take n xs # chunks_of n (drop n xs))"

declare chunks_of.simps [simp del]

section \<open>Content items and the domain matcher\<close>

text \<open>
  A record's \<open>value\<close> is untyped in the script (\<open>record.value as any\<close>).  The model
  gives it the shape the script reads, every field optional: a field that is absent
  (\<open>undefined\<close>) is \<open>None\<close>, a field that is present holds a string, an object or an
  array as the script expects it.  A field is named after its object: \<open>feature_type\<close> and
  \<open>embed_type\<close> are the \<open>$type\<close> of a feature and of an embed, \<open>entity_type\<close> is
  \<open>entity.type\<close>, \<open>record_uri\<close> and \<open>record_value\<close> are \<open>record.uri\<close> and
  \<open>record.value\<close>.  An exception thrown by the script is a value of type \<open>error\<close>; a
  property read on \<open>undefined\<close> throws a \<open>TypeError\<close>.
\<close>

record api_error =
  status :: "int option"
  headers :: "(string \<times> string) list option"

datatype error = TypeError | ListRecordsFailed api_error

record feature =
  feature_type :: "string option"
  feature_uri :: "string option"

record facet =
  facet_features :: "feature list option"

record external =
  external_uri :: "string option"

record embed =
  embed_type :: "string option"
  embed_external :: "external option"

record entity =
  entity_type :: "string option"
  entity_value :: "string option"

record post_value =
  facets :: "facet list option"
  embed :: "embed option"
  entities :: "entity list option"

record repo_record =
  record_uri :: string
  record_value :: "post_value option"

text \<open>\<open>xs || []\<close> for an optional array.\<close>

definition or_empty :: "'a list option \<Rightarrow> 'a list" where
  "or_empty xs = (case xs of None \<Rightarrow> [] | Some ys \<Rightarrow> ys)"

text \<open>
  The inner loop over the features of one facet:
  \<^verbatim>\<open>for (const feature of features) {
    if (feature.$type === 'app.bsky.richtext.facet#link' && feature.uri.includes(TARGET_DOMAIN)) {
      found = true;
      break;
    }
  }\<close>
  \<open>feature.uri.includes\<close> reads a property of \<open>feature.uri\<close>: when the feature has no
  \<open>uri\<close>, that is a \<open>TypeError\<close>.
\<close>

fun check_features :: "string \<Rightarrow> feature list \<Rightarrow> error + bool" where
  "check_features d [] = Inr False"
| "check_features d (f # fs) =
     (if feature_type f = Some ''app.bsky.richtext.facet#link''
      then (case feature_uri f of
              None \<Rightarrow> Inl TypeError
            | Some u \<Rightarrow> if includes_str u d then Inr True else check_features d fs)
      else check_features d fs)"

text \<open>
  The outer loop, \<open>for (const facet of facets) { const features = facet.features || [];
  ...; if (found) break; }\<close>.
\<close>

fun check_facets :: "string \<Rightarrow> facet list \<Rightarrow> error + bool" where
  "check_facets d [] = Inr False"
| "check_facets d (fa # fas) =
     (case check_features d (or_empty (facet_features fa)) of
        Inl e \<Rightarrow> Inl e
      | Inr found \<Rightarrow> if found then Inr True else check_facets d fas)"

text \<open>
  \<open>embed.$type === 'app.bsky.embed.external' && embed.external?.uri?.includes(TARGET_DOMAIN)\<close>:
  the optional chaining makes an absent \<open>external\<close> or \<open>uri\<close> a falsy \<open>undefined\<close>.
\<close>

definition check_embed :: "string \<Rightarrow> embed \<Rightarrow> bool" where
  "check_embed d e =
     (embed_type e = Some ''app.bsky.embed.external'' \<and>
      (case embed_external e of
         None \<Rightarrow> False
       | Some x \<Rightarrow> (case external_uri x of None \<Rightarrow> False | Some u \<Rightarrow> includes_str u d)))"

text \<open>
  \<^verbatim>\<open>for (const entity of val.entities) {
    if (entity.type === 'link' && entity.value.includes(TARGET_DOMAIN)) {
      found = true;
      break;
    }
  }\<close>
\<close>

fun check_entities :: "string \<Rightarrow> entity list \<Rightarrow> error + bool" where
  "check_entities d [] = Inr False"
| "check_entities d (en # ens) =
     (if entity_type en = Some ''link''
      then (case entity_value en of
              None \<Rightarrow> Inl TypeError
            | Some v \<Rightarrow> if includes_str v d then Inr True else check_entities d ens)
      else check_entities d ens)"

text \<open>
  The value of \<open>found\<close> for one record (lines 66 to 100): facets first, then the embed
  \<open>if (!found && val?.embed)\<close>, then the legacy entities
  \<open>if (!found && val?.entities && Array.isArray(val.entities))\<close>.  \<open>val?.f\<close> is
  \<open>undefined\<close> when \<open>val\<close> itself is.
\<close>

definition matches :: "string \<Rightarrow> post_value option \<Rightarrow> error + bool" where
  "matches d v =
     (case check_facets d (or_empty (Option.bind v facets)) of
        Inl e \<Rightarrow> Inl e
      | Inr found \<Rightarrow>
          (let found' =
                 (if \<not> found
                  then (case Option.bind v embed of
                          None \<Rightarrow> found
                        | Some e \<Rightarrow> if check_embed d e then True else found)
                  else found)
           in if \<not> found'
              then (case Option.bind v entities of
                      None \<Rightarrow> Inr found'
                    | Some ens \<Rightarrow> check_entities d ens)
              else Inr found'))"

section \<open>The world outside the script\<close>

text \<open>
  A delete operation as pushed onto \<open>deletes\<close>, the request sent to \<open>listRecords\<close> and
  the page it answers with.
\<close>

record delete_op =
  op_type :: string
  collection :: string
  rkey :: string

record list_request =
  lr_repo :: string
  lr_collection :: string
  lr_limit :: nat
  lr_cursor :: "string option"
  lr_reverse :: bool

record page =
  page_cursor :: "string option"
  page_records :: "repo_record list"

text \<open>
  A call of \<open>applyWrites\<close> either returns or throws an error object.
\<close>

datatype reply = Accepted | Rejected api_error

text \<open>
  What the script does to the outside is kept as a trace of events: the requests it
  sends, the times it sleeps, and the two log lines that tell how a batch ended.  An
  \<open>ApplyWrites\<close> event carries the index of the batch it was sent for.
\<close>

datatype event =
    ListRecords list_request
  | ApplyWrites nat "delete_op list"
  | Sleep int
  | Completed nat
  | ErrorPerforming nat api_error

text \<open>
  The state the script runs in: the clock read by \<open>Date.now()\<close> (milliseconds), the
  number of \<open>applyWrites\<close> calls made so far, and the trace.  Time passes when the script
  sleeps and while an \<open>applyWrites\<close> call is under way.
\<close>

record world =
  clock :: int
  calls :: nat
  trace :: "event list"

text \<open>
  The environment: the session's account, the \<open>listRecords\<close> endpoint as a function of
  the request, the \<open>applyWrites\<close> endpoint as a function of the number of the call giving
  the time the call takes (the limiter's delay included) and its outcome, and the time at
  which the deletion phase starts.
\<close>

record env =
  session_did :: string
  listRecords :: "list_request \<Rightarrow> api_error + page"
  applyWrites :: "nat \<Rightarrow> nat \<times> reply"
  start_time :: int

text \<open>The constants at the head of the script (\<open>VERBOSE\<close> only switches log lines).\<close>

record config =
  TARGET_DOMAIN :: string
  MAX_DELETES_PER_HOUR :: int
  DELETES_PER_BATCH :: int
  DELAY_BETWEEN_BATCHES_MS :: int
  SAFE_MARGIN :: int

definition source_config :: config where
  "source_config =
     \<lparr>TARGET_DOMAIN = ''futura-sciences.com'',
      MAX_DELETES_PER_HOUR = 5000,
      DELETES_PER_BATCH = 200,
      DELAY_BETWEEN_BATCHES_MS = 5000,
      SAFE_MARGIN = 100\<rparr>"

text \<open>\<open>sleep(ms)\<close>: the timer is taken to fire after exactly \<open>ms\<close> milliseconds.\<close>

definition sleep :: "int \<Rightarrow> world \<Rightarrow> world" where
  "sleep ms w = w\<lparr>clock := clock w + ms, trace := trace w @ [Sleep ms]\<rparr>"

section \<open>The scan\<close>

definition mk_delete :: "repo_record \<Rightarrow> delete_op" where
  "mk_delete r =
     \<lparr>op_type = ''com.atproto.repo.applyWrites#delete'',
      collection = ''app.bsky.feed.post'',
      rkey = getRecordId (record_uri r)\<rparr>"

text \<open>
  The loop over the records of one page (lines 62 to 109); an exception of the matcher
  leaves the loop and the script.
\<close>

fun scan_records :: "string \<Rightarrow> repo_record list \<Rightarrow> delete_op list \<Rightarrow> error + delete_op list" where
  "scan_records d [] deletes = Inr deletes"
| "scan_records d (r # rs) deletes =
     (case matches d (record_value r) of
        Inl e \<Rightarrow> Inl e
      | Inr found \<Rightarrow> scan_records d rs (if found then deletes @ [mk_delete r] else deletes))"

definition list_request_for :: "string \<Rightarrow> string option \<Rightarrow> list_request" where
  "list_request_for did c =
     \<lparr>lr_repo = did, lr_collection = ''app.bsky.feed.post'', lr_limit = 100,
      lr_cursor = c, lr_reverse = True\<rparr>"

text \<open>\<open>while (cursor)\<close>: \<open>undefined\<close> and the empty string are falsy.\<close>

definition truthy :: "string option \<Rightarrow> bool" where
  "truthy c = (case c of None \<Rightarrow> False | Some s \<Rightarrow> s \<noteq> [])"

text \<open>
  The \<open>do ... while (cursor)\<close> loop (lines 46 to 110).  The server may hand out cursors
  for ever, so the loop is option-valued.  A rejected \<open>listRecords\<close> call is an exception
  that nothing catches.
\<close>

partial_function (option) scan_loop ::
  "env \<Rightarrow> string \<Rightarrow> string option \<Rightarrow> delete_op list \<Rightarrow> world
     \<Rightarrow> (world \<times> (error + delete_op list)) option" where
  "scan_loop e d c deletes w =
     (let req = list_request_for (session_did e) c;
          w1 = w\<lparr>trace := trace w @ [ListRecords req]\<rparr>
      in case listRecords e req of
           Inl err \<Rightarrow> Some (w1, Inl (ListRecordsFailed err))
         | Inr response \<Rightarrow>
             (case scan_records d (page_records response) deletes of
                Inl ex \<Rightarrow> Some (w1, Inl ex)
              | Inr deletes' \<Rightarrow>
                  if truthy (page_cursor response)
                  then scan_loop e d (page_cursor response) deletes' w1
                  else Some (w1, Inr deletes')))"

declare scan_loop.simps [code]

section \<open>The quota governor\<close>

text \<open>
  The two variables \<open>hourWindowStart\<close> and \<open>deletesThisHour\<close>.
\<close>

record quota_window =
  hourWindowStart :: int
  deletesThisHour :: int

text \<open>
  The check made at the head of the dispatch loop for a batch of \<open>n\<close> operations
  (lines 129 to 143):
  \<^verbatim>\<open>if (deletesThisHour + chunk.length > (MAX_DELETES_PER_HOUR - SAFE_MARGIN)) {
    const now = Date.now();
    const elapsed = now - hourWindowStart;
    const oneHourMs = 3600000;
    if (elapsed < oneHourMs) {
      const waitTime = oneHourMs - elapsed;
      await sleep(waitTime);
    }
    hourWindowStart = Date.now();
    deletesThisHour = 0;
  }\<close>
\<close>

definition quota_check :: "config \<Rightarrow> int \<Rightarrow> world \<Rightarrow> quota_window \<Rightarrow> world \<times> quota_window" where
  "quota_check cfg n w q =
     (if deletesThisHour q + n > MAX_DELETES_PER_HOUR cfg - SAFE_MARGIN cfg
      then (let now = clock w;
                elapsed = now - hourWindowStart q;
                oneHourMs = 3600000;
                w' = (if elapsed < oneHourMs then sleep (oneHourMs - elapsed) w else w)
            in (w', \<lparr>hourWindowStart = clock w', deletesThisHour = 0\<rparr>))
      else (w, q))"

section \<open>The retry loop\<close>

text \<open>
  \<open>parseInt(s, 10)\<close>: leading white space is skipped, one sign is read, and the longest
  run of decimal digits that follows is the number; with no digit the result is \<open>NaN\<close>,
  here \<open>None\<close>.  A header value is a string of code units below 256, among which white
  space is TAB, LF, VT, FF, CR, SP and NBSP.  Numbers are integers, as they are in the
  script as long as they stay below \<open>2^53\<close>.
\<close>

definition isWhiteSpace :: "char \<Rightarrow> bool" where
  "isWhiteSpace c = (c \<in> set [CHR 0x09, CHR 0x0A, CHR 0x0B, CHR 0x0C, CHR 0x0D, CHR 0x20, CHR 0xA0])"

definition isDigit :: "char \<Rightarrow> bool" where
  "isDigit c = (c \<in> set ''0123456789'')"

definition digits_value :: "string \<Rightarrow> int" where
  "digits_value ds = foldl (\<lambda>acc c. 10 * acc + (of_char c - 48)) 0 ds"

definition parseInt :: "string \<Rightarrow> int option" where
  "parseInt s =
     (let S = dropWhile isWhiteSpace s;
          sign = (if S \<noteq> [] \<and> hd S = CHR ''-'' then - 1 else 1);
          S' = (if S \<noteq> [] \<and> (hd S = CHR ''+'' \<or> hd S = CHR ''-'') then tl S else S);
          Z = takeWhile isDigit S'
      in if Z = [] then None else Some (sign * digits_value Z))"

text \<open>\<open>error.headers?.['ratelimit-reset']\<close>.\<close>

definition ratelimit_reset :: "api_error \<Rightarrow> string option" where
  "ratelimit_reset err = (case headers err of None \<Rightarrow> None | Some h \<Rightarrow> map_of h ''ratelimit-reset'')"

text \<open>
  The seconds to wait after a 429 (lines 162 to 172), \<open>now_ms\<close> being \<open>Date.now()\<close>:
  \<^verbatim>\<open>let waitSeconds = 60;
  if (resetTimeStr) {
    const resetTime = parseInt(resetTimeStr, 10);
    const now = Math.floor(Date.now() / 1000);
    const diff = resetTime - now;
    if (diff > 0) { waitSeconds = diff; }
  }\<close>
  The empty string is falsy; with \<open>resetTime\<close> \<open>NaN\<close> so is \<open>diff\<close>, and \<open>NaN > 0\<close> is false.
\<close>

definition wait_seconds :: "api_error \<Rightarrow> int \<Rightarrow> int" where
  "wait_seconds err now_ms =
     (case ratelimit_reset err of
        None \<Rightarrow> 60
      | Some resetTimeStr \<Rightarrow>
          if resetTimeStr = [] then 60
          else (case parseInt resetTimeStr of
                  None \<Rightarrow> 60
                | Some resetTime \<Rightarrow>
                    (let now = now_ms div 1000; diff = resetTime - now
                     in if diff > 0 then diff else 60)))"

text \<open>
  One \<open>applyWrites\<close> call for batch \<open>idx\<close>: the call is recorded and counted, and the
  clock moves on by the time the call took.
\<close>

definition attempt :: "env \<Rightarrow> nat \<Rightarrow> delete_op list \<Rightarrow> world \<Rightarrow> world" where
  "attempt e idx chunk w =
     w\<lparr>clock := clock w + int (fst (applyWrites e (calls w))),
       calls := calls w + 1,
       trace := trace w @ [ApplyWrites idx chunk]\<rparr>"

text \<open>
  The loop \<open>while (!success) { try { ... } catch (error) { ... } }\<close> (lines 148 to 183);
  its result is the state and the value of \<open>success\<close> on leaving it.  Nothing bounds
  the number of rounds, so the loop is option-valued.
\<close>

partial_function (option) retry_loop ::
  "env \<Rightarrow> nat \<Rightarrow> delete_op list \<Rightarrow> world \<Rightarrow> (world \<times> bool) option" where
  "retry_loop e idx chunk w =
     (let w1 = attempt e idx chunk w
      in case snd (applyWrites e (calls w)) of
           Accepted \<Rightarrow> Some (w1\<lparr>trace := trace w1 @ [Completed idx]\<rparr>, True)
         | Rejected err \<Rightarrow>
             if status err = Some 429
             then retry_loop e idx chunk (sleep (wait_seconds err (clock w1) * 1000) w1)
             else Some (w1\<lparr>trace := trace w1 @ [ErrorPerforming idx err]\<rparr>, False))"

declare retry_loop.simps [code]

section \<open>The dispatch loop and the whole run\<close>

text \<open>
  The loop over the batches (lines 126 to 194), \<open>idx\<close> being the index of the first batch
  of the list.  The third component of the result tells whether the loop ran to its end
  (\<open>True\<close>) or was left by \<open>break\<close> (\<open>False\<close>).
\<close>

fun dispatch_loop ::
  "config \<Rightarrow> env \<Rightarrow> nat \<Rightarrow> delete_op list list \<Rightarrow> world \<Rightarrow> quota_window
     \<Rightarrow> (world \<times> quota_window \<times> bool) option" where
  "dispatch_loop cfg e idx [] w q = Some (w, q, True)"
| "dispatch_loop cfg e idx (chunk # rest) w q =
     (let (w1, q1) = quota_check cfg (int (length chunk)) w q
      in case retry_loop e idx chunk w1 of
           None \<Rightarrow> None
         | Some (w2, success) \<Rightarrow>
             if success
             then dispatch_loop cfg e (idx + 1) rest
                    (sleep (DELAY_BETWEEN_BATCHES_MS cfg) w2)
                    (q1\<lparr>deletesThisHour := deletesThisHour q1 + int (length chunk)\<rparr>)
             else Some (w2, q1, False))"

text \<open>
  How a run ends: by an exception, at \<open>No posts to delete.\<close>, or at \<open>Done\<close> (with the
  flag of the dispatch loop).
\<close>

datatype exit = Threw error | NoPostsToDelete | Done bool

text \<open>
  The script after login.  The clock is first read when the deletion phase starts
  (line 123), so the run starts with the clock at that time.
\<close>

definition run :: "config \<Rightarrow> env \<Rightarrow> (world \<times> exit) option" where
  "run cfg e =
     (case scan_loop e (TARGET_DOMAIN cfg) None [] \<lparr>clock = start_time e, calls = 0, trace = []\<rparr> of
        None \<Rightarrow> None
      | Some (w, Inl ex) \<Rightarrow> Some (w, Threw ex)
      | Some (w, Inr deletes) \<Rightarrow>
          if length deletes = 0 then Some (w, NoPostsToDelete)
          else (case chunked deletes (DELETES_PER_BATCH cfg) of
                  None \<Rightarrow> None
                | Some chunkedDeletes \<Rightarrow>
                    (case dispatch_loop cfg e 0 chunkedDeletes w
                            \<lparr>hourWindowStart = clock w, deletesThisHour = 0\<rparr> of
                       None \<Rightarrow> None
                     | Some (w', q, finished) \<Rightarrow> Some (w', Done finished))))"

section \<open>The three evidence sources, in the words of the specification\<close>

text \<open>
  These definitions follow the specification, not the script: \<open>s\<close> contains \<open>d\<close> when
  \<open>d\<close> occurs in it as a contiguous, case-sensitive substring.
\<close>

definition contains_domain :: "string \<Rightarrow> string \<Rightarrow> bool" where
  "contains_domain s d = (\<exists>ps ss. s = ps @ d @ ss)"

text \<open>A rich-text annotation of kind link whose uri contains the domain.\<close>

definition link_annotation_evidence :: "string \<Rightarrow> post_value option \<Rightarrow> bool" where
  "link_annotation_evidence d v =
     (\<exists>fa \<in> set (or_empty (Option.bind v facets)). \<exists>f \<in> set (or_empty (facet_features fa)).
        feature_type f = Some ''app.bsky.richtext.facet#link'' \<and>
        (\<exists>u. feature_uri f = Some u \<and> contains_domain u d))"

text \<open>An attached external-reference embed whose uri contains the domain.\<close>

definition embed_evidence :: "string \<Rightarrow> post_value option \<Rightarrow> bool" where
  "embed_evidence d v =
     (\<exists>e x u. Option.bind v embed = Some e \<and> embed_type e = Some ''app.bsky.embed.external'' \<and>
        embed_external e = Some x \<and> external_uri x = Some u \<and> contains_domain u d)"

text \<open>A legacy entity of type link whose value contains the domain.\<close>

definition legacy_entity_evidence :: "string \<Rightarrow> post_value option \<Rightarrow> bool" where
  "legacy_entity_evidence d v =
     (\<exists>en \<in> set (or_empty (Option.bind v entities)).
        entity_type en = Some ''link'' \<and> (\<exists>s. entity_value en = Some s \<and> contains_domain s d))"

definition evidence :: "string \<Rightarrow> post_value option \<Rightarrow> bool" where
  "evidence d v =
     (link_annotation_evidence d v \<or> embed_evidence d v \<or> legacy_entity_evidence d v)"

text \<open>
  A value is complete when every link feature carries a \<open>uri\<close> and every link entity a
  \<open>value\<close>, as the lexicon of the service requires.
\<close>

definition complete_value :: "post_value option \<Rightarrow> bool" where
  "complete_value v =
     ((\<forall>fa \<in> set (or_empty (Option.bind v facets)). \<forall>f \<in> set (or_empty (facet_features fa)).
         feature_type f = Some ''app.bsky.richtext.facet#link'' \<longrightarrow> feature_uri f \<noteq> None) \<and>
      (\<forall>en \<in> set (or_empty (Option.bind v entities)).
         entity_type en = Some ''link'' \<longrightarrow> entity_value en \<noteq> None))"

section \<open>A paging server that comes to an end\<close>

text \<open>
  A server that, asked with cursor \<open>c\<close>, answers with the pages \<open>ps\<close> one after the
  other, each page but the last naming a further cursor.
\<close>

fun serves :: "env \<Rightarrow> string option \<Rightarrow> page list \<Rightarrow> bool" where
  "serves e c [] = False"
| "serves e c [p] =
     (listRecords e (list_request_for (session_did e) c) = Inr p \<and> \<not> truthy (page_cursor p))"
| "serves e c (p # p' # ps) =
     (listRecords e (list_request_for (session_did e) c) = Inr p \<and> truthy (page_cursor p) \<and>
      serves e (page_cursor p) (p' # ps))"

section \<open>An example account\<close>

text \<open>
  Three posts and a server for them, used to run the definitions on concrete input:
  \<open>post_a\<close> links to the domain in a facet, \<open>post_b\<close> has no link at all, \<open>post_c\<close>
  carries an external embed for the domain.  The server hands out \<open>post_a\<close> and
  \<open>post_b\<close> on the first page and \<open>post_c\<close> on the second and last.  The first
  \<open>applyWrites\<close> call is answered by a 429 that names a reset time, the later ones are
  accepted; every call takes 10 milliseconds.
\<close>

definition post_a :: repo_record where
  "post_a =
     \<lparr>record_uri = ''at://did:plc:me/app.bsky.feed.post/aaa'',
      record_value = Some \<lparr>facets = Some [\<lparr>facet_features =
          Some [\<lparr>feature_type = Some ''app.bsky.richtext.facet#link'',
                 feature_uri = Some ''https://www.futura-sciences.com/x''\<rparr>]\<rparr>],
        embed = None, entities = None\<rparr>\<rparr>"

definition post_b :: repo_record where
  "post_b =
     \<lparr>record_uri = ''at://did:plc:me/app.bsky.feed.post/bbb'',
      record_value = Some \<lparr>facets = None, embed = None, entities = None\<rparr>\<rparr>"

definition post_c :: repo_record where
  "post_c =
     \<lparr>record_uri = ''at://did:plc:me/app.bsky.feed.post/ccc'',
      record_value = Some \<lparr>facets = None,
        embed = Some \<lparr>embed_type = Some ''app.bsky.embed.external'',
                      embed_external = Some \<lparr>external_uri = Some ''http://futura-sciences.com/''\<rparr>\<rparr>,
        entities = None\<rparr>\<rparr>"

definition page_one :: page where
  "page_one = \<lparr>page_cursor = Some ''c1'', page_records = [post_a, post_b]\<rparr>"

definition page_two :: page where
  "page_two = \<lparr>page_cursor = None, page_records = [post_c]\<rparr>"

definition example_env :: env where
  "example_env =
     \<lparr>session_did = ''did:plc:me'',
      listRecords = (\<lambda>r. if lr_cursor r = None then Inr page_one
                          else if lr_cursor r = Some ''c1'' then Inr page_two
                          else Inl \<lparr>status = Some 400, headers = None\<rparr>),
      applyWrites = (\<lambda>i. if i = 0
                          then (10, Rejected \<lparr>status = Some 429,
                                              headers = Some [(''ratelimit-reset'', ''1030'')]\<rparr>)
                          else (10, Accepted)),
      start_time = 1000000\<rparr>"

definition delete_of :: "string \<Rightarrow> delete_op" where
  "delete_of k =
     \<lparr>op_type = ''com.atproto.repo.applyWrites#delete'', collection = ''app.bsky.feed.post'',
      rkey = k\<rparr>"

section \<open>Notions for stating the properties of the dispatch\<close>

text \<open>
  None of these is part of the script.  A reply is a rate limit when it is an error of
  status 429.
\<close>

definition is_rate_limit :: "reply \<Rightarrow> bool" where
  "is_rate_limit r = (case r of Accepted \<Rightarrow> False | Rejected err \<Rightarrow> status err = Some 429)"

text \<open>
  The state after one rejected call for batch \<open>idx\<close> and the wait that follows it, and
  after \<open>k\<close> such rounds.
\<close>

definition backoff :: "env \<Rightarrow> nat \<Rightarrow> delete_op list \<Rightarrow> world \<Rightarrow> world" where
  "backoff e idx chunk w =
     (case snd (applyWrites e (calls w)) of
        Accepted \<Rightarrow> attempt e idx chunk w
      | Rejected err \<Rightarrow>
          sleep (wait_seconds err (clock (attempt e idx chunk w)) * 1000) (attempt e idx chunk w))"

fun after_retries :: "env \<Rightarrow> nat \<Rightarrow> delete_op list \<Rightarrow> nat \<Rightarrow> world \<Rightarrow> world" where
  "after_retries e idx chunk 0 w = w"
| "after_retries e idx chunk (Suc k) w = after_retries e idx chunk k (backoff e idx chunk w)"

text \<open>Kinds of events, and the batch an event belongs to.\<close>

fun is_write :: "event \<Rightarrow> bool" where
  "is_write (ApplyWrites i c) = True"
| "is_write ev = False"

fun is_sleep :: "event \<Rightarrow> bool" where
  "is_sleep (Sleep ms) = True"
| "is_sleep ev = False"

fun is_outcome :: "event \<Rightarrow> bool" where
  "is_outcome (Completed i) = True"
| "is_outcome (ErrorPerforming i err) = True"
| "is_outcome ev = False"

fun event_batch :: "event \<Rightarrow> nat option" where
  "event_batch (ApplyWrites i c) = Some i"
| "event_batch (Completed i) = Some i"
| "event_batch (ErrorPerforming i err) = Some i"
| "event_batch ev = None"

text \<open>
  A second server for the same account: its first \<open>applyWrites\<close> call is accepted, the
  second is rejected with status 500, the later ones would be accepted.
\<close>

definition failing_env :: env where
  "failing_env =
     example_env\<lparr>applyWrites :=
       (\<lambda>i. if i = 1 then (10, Rejected \<lparr>status = Some 500, headers = None\<rparr>) else (10, Accepted))\<rparr>"

text \<open>
  A post whose link feature carries no \<open>uri\<close>, and a server whose only page holds it
  in front of \<open>post_c\<close>.
\<close>

definition post_d :: repo_record where
  "post_d =
     \<lparr>record_uri = ''at://did:plc:me/app.bsky.feed.post/ddd'',
      record_value = Some \<lparr>facets = Some [\<lparr>facet_features =
          Some [\<lparr>feature_type = Some ''app.bsky.richtext.facet#link'', feature_uri = None\<rparr>]\<rparr>],
        embed = None, entities = None\<rparr>\<rparr>"

definition bare_env :: env where
  "bare_env =
     example_env\<lparr>listRecords := (\<lambda>r. Inr \<lparr>page_cursor = None, page_records = [post_d, post_c]\<rparr>)\<rparr>"

section \<open>Properties of the primitives\<close>

lemma slice_from_nonneg:
  "0 \<le> k \<Longrightarrow> slice_from xs k = drop (nat k) xs"
  by (auto simp: slice_from_def slice_def Let_def min_def)

lemma lastIndexOf_absent: "c \<notin> set s \<Longrightarrow> lastIndexOf s c = - 1"
  by (simp add: lastIndexOf_def)

lemma lastIndexOf_last_occurrence:
  assumes "c \<notin> set suf"
  shows "lastIndexOf (pre @ c # suf) c = int (length pre)"
proof -
  have "takeWhile (\<lambda>x. x \<noteq> c) (rev suf @ c # rev pre) = rev suf"
    using assms by (simp add: takeWhile_append)
  then show ?thesis
    by (simp add: lastIndexOf_def)
qed

text \<open>
  Claim C10: the record identifier is the part of the uri strictly after its last
  \<open>/\<close>; a uri with no \<open>/\<close> is returned whole, and a uri that ends in \<open>/\<close> gives the
  empty string.
\<close>

theorem getRecordId_after_last_slash:
  "(CHR ''/'' \<notin> set uri \<longrightarrow> getRecordId uri = uri) \<and>
   (\<forall>pre suf. uri = pre @ CHR ''/'' # suf \<and> CHR ''/'' \<notin> set suf \<longrightarrow> getRecordId uri = suf) \<and>
   getRecordId (uri @ ''/'') = ''''"
proof (intro conjI allI impI)
  assume "CHR ''/'' \<notin> set uri"
  then show "getRecordId uri = uri"
    by (simp add: getRecordId_def lastIndexOf_absent slice_from_nonneg)
next
  fix pre suf
  assume "uri = pre @ CHR ''/'' # suf \<and> CHR ''/'' \<notin> set suf"
  then show "getRecordId uri = suf"
    by (simp add: getRecordId_def lastIndexOf_last_occurrence slice_from_nonneg nat_add_distrib)
next
  have "lastIndexOf (uri @ CHR ''/'' # []) (CHR ''/'') = int (length uri)"
    by (rule lastIndexOf_last_occurrence) simp
  then show "getRecordId (uri @ ''/'') = ''''"
    by (simp add: getRecordId_def slice_from_nonneg nat_add_distrib)
qed

theorem getRecordId_after_last_slash_witness:
  "getRecordId ''at://did:plc:abc/app.bsky.feed.post/3kabc'' = ''3kabc'' \<and>
   getRecordId ''3kabc'' = ''3kabc'' \<and>
   getRecordId ''at://did:plc:abc/'' = ''''"
proof -
  have a: "getRecordId ''at://did:plc:abc/app.bsky.feed.post/3kabc'' = ''3kabc''"
    using getRecordId_after_last_slash [of "''at://did:plc:abc/app.bsky.feed.post/3kabc''"]
    by (elim conjE allE [where x = "''at://did:plc:abc/app.bsky.feed.post''"]
          allE [where x = "''3kabc''"]) simp
  have b: "getRecordId ''3kabc'' = ''3kabc''"
    using getRecordId_after_last_slash [of "''3kabc''"] by simp
  have c: "getRecordId ''at://did:plc:abc/'' = ''''"
    using getRecordId_after_last_slash [of "''at://did:plc:abc''"] by simp
  from a b c show ?thesis by simp
qed

section \<open>Partitioning is order-preserving and size-conserving\<close>

lemma slice_chunk:
  "0 \<le> idx \<Longrightarrow> 0 < sz \<Longrightarrow> slice arr idx (idx + sz) = take (nat sz) (drop (nat idx) arr)"
  by (auto simp: slice_def Let_def min_def take_all)

lemma chunked_loop_chunks_of:
  "0 < sz \<Longrightarrow> 0 \<le> idx \<Longrightarrow>
   chunked_loop arr sz idx chunks = Some (chunks @ chunks_of (nat sz) (drop (nat idx) arr))"
proof (induction "length arr - nat idx" arbitrary: idx chunks rule: less_induct)
  case less
  show ?case
  proof (cases "idx < int (length arr)")
    case False
    then have "drop (nat idx) arr = []" using less.prems by simp
    with False show ?thesis
      by (subst chunked_loop.simps) (simp add: chunks_of.simps)
  next
    case True
    have smaller: "length arr - nat (idx + sz) < length arr - nat idx"
      using True less.prems by linarith
    have ne: "drop (nat idx) arr \<noteq> []" using True less.prems by simp
    have step: "chunked_loop arr sz (idx + sz) (chunks @ [slice arr idx (idx + sz)]) =
        Some ((chunks @ [slice arr idx (idx + sz)]) @
              chunks_of (nat sz) (drop (nat (idx + sz)) arr))"
      using less.hyps [OF smaller] less.prems by simp
    have unf: "chunks_of (nat sz) (drop (nat idx) arr) =
        take (nat sz) (drop (nat idx) arr) #
        chunks_of (nat sz) (drop (nat (idx + sz)) arr)"
      using ne less.prems
      by (subst chunks_of.simps) (simp add: nat_add_distrib add.commute)
    show ?thesis
      using True step unf less.prems
      by (subst chunked_loop.simps) (simp add: slice_chunk)
  qed
qed

lemma concat_chunks_of: "0 < n \<Longrightarrow> concat (chunks_of n xs) = xs"
proof (induction n xs rule: chunks_of.induct)
  case (1 n xs)
  then show ?case by (subst chunks_of.simps) auto
qed

lemma length_chunks_of: "0 < n \<Longrightarrow> length (chunks_of n xs) = (length xs + n - 1) div n"
proof (induction n xs rule: chunks_of.induct)
  case (1 n xs)
  show ?case
  proof (cases "xs = []")
    case True
    then show ?thesis using 1 by (simp add: chunks_of.simps)
  next
    case False
    then have "length (chunks_of n xs) = Suc ((length xs - n + n - 1) div n)"
      using 1 by (subst chunks_of.simps) simp
    also have "\<dots> = (length xs + n - 1) div n"
    proof (cases "n \<le> length xs")
      case True
      then have "(length xs + n - 1) div n = (length xs - 1 + n) div n" using 1(2) by simp
      also have "\<dots> = Suc ((length xs - 1) div n)" using 1(2)
        by (metis add.commute div_add_self2 nat_less_le plus_1_eq_Suc)
      finally show ?thesis using True by simp
    next
      case False
      with \<open>xs \<noteq> []\<close> have "0 < length xs" "length xs < n" by auto
      then have "length xs + n - 1 = n + (length xs - 1)" "length xs - 1 < n" by linarith+
      then have "(length xs + n - 1) div n = 1"
        by (metis False One_nat_def Suc_eq_plus1 bot_nat_0.extremum div_add_self1 div_less)
      moreover have "(length xs - n + n - 1) div n = 0" using False \<open>0 < length xs\<close> by simp
      ultimately show ?thesis by simp
    qed
    finally show ?thesis .
  qed
qed

lemma chunks_of_sizes: "0 < n \<Longrightarrow> u \<in> set (chunks_of n xs) \<Longrightarrow> u \<noteq> [] \<and> length u \<le> n"
proof (induction n xs rule: chunks_of.induct)
  case (1 n xs)
  from 1(3) have ne: "xs \<noteq> []" by (subst (asm) chunks_of.simps) (auto split: if_splits)
  from 1(3) ne 1(2) have "u = take n xs \<or> u \<in> set (chunks_of n (drop n xs))"
    by (subst (asm) chunks_of.simps) auto
  then show ?case using 1 ne by auto
qed

lemma chunks_of_full:
  "0 < n \<Longrightarrow> Suc i < length (chunks_of n xs) \<Longrightarrow> length (chunks_of n xs ! i) = n"
proof (induction n xs arbitrary: i rule: chunks_of.induct)
  case (1 n xs)
  from 1(3) have ne: "xs \<noteq> []" by (subst (asm) chunks_of.simps) (auto split: if_splits)
  have unf: "chunks_of n xs = take n xs # chunks_of n (drop n xs)"
    using ne 1(2) by (subst chunks_of.simps) simp
  have rest_ne: "chunks_of n (drop n xs) \<noteq> []" using 1(3) unf by auto
  then have "drop n xs \<noteq> []" by (subst (asm) chunks_of.simps) (auto split: if_splits)
  then have len: "n < length xs" by simp
  show ?case
  proof (cases i)
    case 0
    then show ?thesis using unf len by simp
  next
    case (Suc j)
    then have "Suc j < length (chunks_of n (drop n xs))" using 1(3) unf by simp
    then have "length (chunks_of n (drop n xs) ! j) = n"
      using 1(1) [of j] ne 1(2) by simp
    then show ?thesis using unf Suc by simp
  qed
qed

text \<open>
  Claim C6: for a positive batch size \<open>B\<close>, partitioning a list of length \<open>L\<close> returns
  \<open>ceil(L/B)\<close> units (none for the empty list), every unit non-empty and of at most \<open>B\<close>
  elements, every unit but the last of exactly \<open>B\<close>, and the units concatenated in order
  are the list itself.
\<close>

theorem chunked_partition:
  assumes "0 < B"
  shows "\<exists>units. chunked arr B = Some units \<and>
           concat units = arr \<and>
           int (length units) = (int (length arr) + B - 1) div B \<and>
           (arr = [] \<longrightarrow> units = []) \<and>
           (\<forall>u \<in> set units. u \<noteq> [] \<and> int (length u) \<le> B) \<and>
           (\<forall>i. Suc i < length units \<longrightarrow> int (length (units ! i)) = B)"
proof -
  let ?n = "nat B"
  let ?units = "chunks_of ?n arr"
  have pos: "0 < ?n" using assms by simp
  have run: "chunked arr B = Some ?units"
    using chunked_loop_chunks_of [of B 0 arr "[]"] assms by (simp add: chunked_def)
  have cnt: "int (length ?units) = (int (length arr) + B - 1) div B"
  proof -
    have "int (length ?units) = int ((length arr + ?n - 1) div ?n)"
      using pos by (simp add: length_chunks_of)
    also have "\<dots> = (int (length arr + ?n - 1)) div int ?n"
      by (simp add: zdiv_int)
    also have "int (length arr + ?n - 1) = int (length arr) + B - 1"
      using assms by (simp add: of_nat_diff)
    finally show ?thesis using assms by simp
  qed
  have empty: "arr = [] \<longrightarrow> ?units = []"
    by (simp add: chunks_of.simps)
  have sizes: "\<forall>u \<in> set ?units. u \<noteq> [] \<and> int (length u) \<le> B"
    using chunks_of_sizes [OF pos, of _ arr] assms by fastforce
  have full: "\<forall>i. Suc i < length ?units \<longrightarrow> int (length (?units ! i)) = B"
    using chunks_of_full [OF pos, of _ arr] assms by simp
  from run concat_chunks_of [OF pos, of arr] cnt empty sizes full show ?thesis
    by blast
qed

theorem chunked_partition_witness:
  "(0::int) < 2 \<and> chunked [1, 2, 3, 4, 5 :: nat] 2 = Some [[1, 2], [3, 4], [5]] \<and>
   concat [[1, 2], [3, 4], [5 :: nat]] = [1, 2, 3, 4, 5] \<and>
   int (length [[1, 2], [3, 4], [5 :: nat]]) = (int (length [1, 2, 3, 4, 5 :: nat]) + 2 - 1) div 2"
proof -
  have pos: "(0::int) < 2" by simp
  obtain units where u: "chunked [1, 2, 3, 4, 5 :: nat] 2 = Some units"
    "concat units = [1, 2, 3, 4, 5]"
    "int (length units) = (int (length [1, 2, 3, 4, 5 :: nat]) + 2 - 1) div 2"
    using chunked_partition [OF pos, of "[1, 2, 3, 4, 5 :: nat]"] by blast
  have "chunked [1, 2, 3, 4, 5 :: nat] 2 = Some [[1, 2], [3, 4], [5]]"
    by code_simp
  with u have "units = [[1, 2], [3, 4], [5]]" by simp
  with u pos show ?thesis by simp
qed

section \<open>The domain matcher\<close>

lemma includes_str_iff_contains: "includes_str s t = contains_domain s t"
proof (induction s)
  case Nil
  show ?case by (auto simp: contains_domain_def)
next
  case (Cons x xs)
  have "contains_domain (x # xs) t = sublist t (x # xs)"
    by (simp add: contains_domain_def sublist_def)
  also have "\<dots> = (prefix t (x # xs) \<or> sublist t xs)"
    by (rule sublist_Cons_right)
  also have "sublist t xs = contains_domain xs t"
    by (simp add: contains_domain_def sublist_def)
  finally show ?case using Cons by simp
qed

lemma check_features_returns:
  "check_features d fs = Inr b \<Longrightarrow>
   b = (\<exists>f \<in> set fs. feature_type f = Some ''app.bsky.richtext.facet#link'' \<and>
          (\<exists>u. feature_uri f = Some u \<and> contains_domain u d))"
  by (induction fs) (auto simp: includes_str_iff_contains split: if_splits option.splits)

lemma check_features_total:
  "\<forall>f \<in> set fs. feature_type f = Some ''app.bsky.richtext.facet#link'' \<longrightarrow> feature_uri f \<noteq> None
   \<Longrightarrow> \<exists>b. check_features d fs = Inr b"
  by (induction fs) (auto split: option.splits)

lemma check_facets_returns:
  "check_facets d fas = Inr b \<Longrightarrow>
   b = (\<exists>fa \<in> set fas. \<exists>f \<in> set (or_empty (facet_features fa)).
          feature_type f = Some ''app.bsky.richtext.facet#link'' \<and>
          (\<exists>u. feature_uri f = Some u \<and> contains_domain u d))"
proof (induction fas)
  case Nil
  then show ?case by simp
next
  case (Cons fa fas)
  show ?case
  proof (cases "check_features d (or_empty (facet_features fa))")
    case (Inl e)
    with Cons.prems show ?thesis by simp
  next
    case (Inr found)
    note here = check_features_returns [OF Inr]
    show ?thesis
    proof (cases found)
      case True
      with Inr Cons.prems here show ?thesis by auto
    next
      case False
      with Inr Cons.prems have "check_facets d fas = Inr b" by simp
      from Cons.IH [OF this] False here show ?thesis by auto
    qed
  qed
qed

lemma check_facets_total:
  "\<forall>fa \<in> set fas. \<forall>f \<in> set (or_empty (facet_features fa)).
      feature_type f = Some ''app.bsky.richtext.facet#link'' \<longrightarrow> feature_uri f \<noteq> None
   \<Longrightarrow> \<exists>b. check_facets d fas = Inr b"
proof (induction fas)
  case Nil
  then show ?case by auto
next
  case (Cons fa fas)
  then obtain b where "check_features d (or_empty (facet_features fa)) = Inr b"
    using check_features_total [of "or_empty (facet_features fa)" d] by auto
  moreover obtain b' where "check_facets d fas = Inr b'" using Cons by auto
  ultimately show ?case by auto
qed

lemma check_embed_iff:
  "check_embed d e =
     (embed_type e = Some ''app.bsky.embed.external'' \<and>
      (\<exists>x u. embed_external e = Some x \<and> external_uri x = Some u \<and> contains_domain u d))"
  by (auto simp: check_embed_def includes_str_iff_contains split: option.splits)

lemma check_entities_returns:
  "check_entities d ens = Inr b \<Longrightarrow>
   b = (\<exists>en \<in> set ens. entity_type en = Some ''link'' \<and>
          (\<exists>s. entity_value en = Some s \<and> contains_domain s d))"
  by (induction ens) (auto simp: includes_str_iff_contains split: if_splits option.splits)

lemma check_entities_total:
  "\<forall>en \<in> set ens. entity_type en = Some ''link'' \<longrightarrow> entity_value en \<noteq> None
   \<Longrightarrow> \<exists>b. check_entities d ens = Inr b"
  by (induction ens) (auto split: option.splits)

text \<open>
  Whenever the matcher returns, it returns whether one of the three evidence sources
  holds the domain.
\<close>

lemma matches_returns_evidence:
  assumes "matches d v = Inr b"
  shows "b = evidence d v"
proof (cases "check_facets d (or_empty (Option.bind v facets))")
  case (Inl e)
  with assms show ?thesis by (simp add: matches_def)
next
  case (Inr found)
  have link: "found = link_annotation_evidence d v"
    using check_facets_returns [OF Inr] by (simp add: link_annotation_evidence_def)
  show ?thesis
  proof (cases found)
    case True
    with Inr assms link show ?thesis by (simp add: matches_def evidence_def)
  next
    case nolink: False
    have emb: "embed_evidence d v = (\<exists>e. Option.bind v embed = Some e \<and> check_embed d e)"
      by (auto simp: embed_evidence_def check_embed_iff)
    show ?thesis
    proof (cases "embed_evidence d v")
      case True
      with emb Inr nolink assms show ?thesis
        by (auto simp: matches_def evidence_def Let_def split: option.splits)
    next
      case noembed: False
      show ?thesis
      proof (cases "Option.bind v entities")
        case None
        with noembed emb Inr nolink assms link show ?thesis
          by (auto simp: matches_def evidence_def Let_def legacy_entity_evidence_def or_empty_def
              split: option.splits)
      next
        case (Some ens)
        with noembed emb Inr nolink assms have "check_entities d ens = Inr b"
          by (auto simp: matches_def Let_def split: option.splits if_splits)
        from check_entities_returns [OF this] Some noembed nolink link show ?thesis
          by (simp add: evidence_def legacy_entity_evidence_def or_empty_def)
      qed
    qed
  qed
qed

text \<open>On a complete value the matcher returns.\<close>

lemma matches_complete:
  assumes "complete_value v"
  shows "matches d v = Inr (evidence d v)"
proof -
  obtain found where f: "check_facets d (or_empty (Option.bind v facets)) = Inr found"
    using check_facets_total [of "or_empty (Option.bind v facets)" d] assms
    by (auto simp: complete_value_def)
  have "\<exists>b. matches d v = Inr b"
  proof (cases "Option.bind v entities")
    case None
    with f show ?thesis by (auto simp: matches_def Let_def split: option.splits)
  next
    case (Some ens)
    then obtain b where "check_entities d ens = Inr b"
      using check_entities_total [of ens d] assms by (auto simp: complete_value_def or_empty_def)
    with f Some show ?thesis by (auto simp: matches_def Let_def split: option.splits)
  qed
  then obtain b where "matches d v = Inr b" ..
  with matches_returns_evidence [OF this] show ?thesis by simp
qed

text \<open>The only exception the matcher throws is the \<open>TypeError\<close>.\<close>

lemma check_features_error: "check_features d fs = Inl ex \<Longrightarrow> ex = TypeError"
  by (induction fs) (auto split: if_splits option.splits)

lemma check_entities_error: "check_entities d ens = Inl ex \<Longrightarrow> ex = TypeError"
  by (induction ens) (auto split: if_splits option.splits)

lemma check_facets_error: "check_facets d fas = Inl ex \<Longrightarrow> ex = TypeError"
  by (induction fas) (auto split: if_splits sum.splits dest: check_features_error)

lemma matches_error: "matches d v = Inl ex \<Longrightarrow> ex = TypeError"
  by (auto simp: matches_def Let_def split: sum.splits option.splits if_splits
      dest: check_facets_error check_entities_error)
text \<open>
  Claim C1 (the matcher returns true exactly when one of the three sources holds the
  domain) fails where the script throws.  The value below has a link feature without
  \<open>uri\<close> and an external embed that names the domain: the embed is evidence, but the
  facet loop throws before the embed is looked at.
\<close>

theorem matches_throws_before_embed:
  "matches ''futura-sciences.com''
     (Some \<lparr>facets = Some [\<lparr>facet_features =
               Some [\<lparr>feature_type = Some ''app.bsky.richtext.facet#link'', feature_uri = None\<rparr>]\<rparr>],
            embed = Some \<lparr>embed_type = Some ''app.bsky.embed.external'',
                          embed_external = Some \<lparr>external_uri = Some ''https://futura-sciences.com/a''\<rparr>\<rparr>,
            entities = None\<rparr>) = Inl TypeError \<and>
   embed_evidence ''futura-sciences.com''
     (Some \<lparr>facets = Some [\<lparr>facet_features =
               Some [\<lparr>feature_type = Some ''app.bsky.richtext.facet#link'', feature_uri = None\<rparr>]\<rparr>],
            embed = Some \<lparr>embed_type = Some ''app.bsky.embed.external'',
                          embed_external = Some \<lparr>external_uri = Some ''https://futura-sciences.com/a''\<rparr>\<rparr>,
            entities = None\<rparr>)"
proof
  show "matches ''futura-sciences.com''
     (Some \<lparr>facets = Some [\<lparr>facet_features =
               Some [\<lparr>feature_type = Some ''app.bsky.richtext.facet#link'', feature_uri = None\<rparr>]\<rparr>],
            embed = Some \<lparr>embed_type = Some ''app.bsky.embed.external'',
                          embed_external = Some \<lparr>external_uri = Some ''https://futura-sciences.com/a''\<rparr>\<rparr>,
            entities = None\<rparr>) = Inl TypeError"
    by (simp add: matches_def or_empty_def)
next
  have "includes_str ''https://futura-sciences.com/a'' ''futura-sciences.com''"
    by simp
  then have "contains_domain ''https://futura-sciences.com/a'' ''futura-sciences.com''"
    by (simp only: includes_str_iff_contains)
  then show "embed_evidence ''futura-sciences.com''
     (Some \<lparr>facets = Some [\<lparr>facet_features =
               Some [\<lparr>feature_type = Some ''app.bsky.richtext.facet#link'', feature_uri = None\<rparr>]\<rparr>],
            embed = Some \<lparr>embed_type = Some ''app.bsky.embed.external'',
                          embed_external = Some \<lparr>external_uri = Some ''https://futura-sciences.com/a''\<rparr>\<rparr>,
            entities = None\<rparr>)"
    by (simp add: embed_evidence_def)
qed

text \<open>
  Claim C2 (the matcher is total and treats a missing field as no evidence) fails on a
  link feature without \<open>uri\<close> and on a link entity without \<open>value\<close>: the script
  throws a \<open>TypeError\<close> on both.
\<close>

theorem matches_throws_on_missing_field:
  "matches ''futura-sciences.com''
     (Some \<lparr>facets = Some [\<lparr>facet_features =
               Some [\<lparr>feature_type = Some ''app.bsky.richtext.facet#link'', feature_uri = None\<rparr>]\<rparr>],
            embed = None, entities = None\<rparr>) = Inl TypeError \<and>
   matches ''futura-sciences.com''
     (Some \<lparr>facets = None, embed = None,
            entities = Some [\<lparr>entity_type = Some ''link'', entity_value = None\<rparr>]\<rparr>) = Inl TypeError"
  by (simp add: matches_def or_empty_def)

section \<open>The scan\<close>

lemma scan_records_append:
  "scan_records d (xs @ ys) acc =
     (case scan_records d xs acc of Inl ex \<Rightarrow> Inl ex | Inr acc' \<Rightarrow> scan_records d ys acc')"
  by (induction xs arbitrary: acc) (auto split: sum.splits)

lemma scan_records_all_return:
  "\<forall>r \<in> set rs. \<exists>b. matches d (record_value r) = Inr b \<Longrightarrow>
   scan_records d rs acc =
     Inr (acc @ map mk_delete (filter (\<lambda>r. matches d (record_value r) = Inr True) rs))"
  by (induction rs arbitrary: acc) auto

lemma scan_loop_serves:
  "serves e c ps \<Longrightarrow>
   \<exists>w'. scan_loop e d c acc w = Some (w', scan_records d (concat (map page_records ps)) acc) \<and>
        clock w' = clock w \<and> calls w' = calls w \<and>
        ((\<exists>ds. scan_records d (concat (map page_records ps)) acc = Inr ds) \<longrightarrow>
         trace w' = trace w @
           map (\<lambda>c'. ListRecords (list_request_for (session_did e) c')) (c # map page_cursor (butlast ps)))"
proof (induction e c ps arbitrary: acc w rule: serves.induct)
  case (1 e c)
  then show ?case by simp
next
  case (2 e c p)
  then show ?case
    by (subst scan_loop.simps) (auto simp: Let_def split: sum.splits)
next
  case (3 e c p p' ps)
  let ?w1 = "w\<lparr>trace := trace w @ [ListRecords (list_request_for (session_did e) c)]\<rparr>"
  from "3.prems" have here: "listRecords e (list_request_for (session_did e) c) = Inr p"
    and more: "truthy (page_cursor p)" and rest: "serves e (page_cursor p) (p' # ps)"
    by simp_all
  show ?case
  proof (cases "scan_records d (page_records p) acc")
    case (Inl ex)
    with here show ?thesis
      by (subst scan_loop.simps) (simp add: Let_def scan_records_append)
  next
    case (Inr acc')
    from "3.IH" [OF rest, of acc' ?w1] obtain w' where
      run: "scan_loop e d (page_cursor p) acc' ?w1 =
              Some (w', scan_records d (concat (map page_records (p' # ps))) acc')"
      and same: "clock w' = clock w" "calls w' = calls w"
      and tr: "(\<exists>ds. scan_records d (concat (map page_records (p' # ps))) acc' = Inr ds) \<longrightarrow>
         trace w' = trace ?w1 @
           map (\<lambda>c'. ListRecords (list_request_for (session_did e) c'))
             (page_cursor p # map page_cursor (butlast (p' # ps)))"
      by auto
    have all: "scan_records d (concat (map page_records (p # p' # ps))) acc =
        scan_records d (concat (map page_records (p' # ps))) acc'"
      using Inr by (simp add: scan_records_append)
    have "scan_loop e d c acc w = Some (w', scan_records d (concat (map page_records (p' # ps))) acc')"
      using here more Inr run by (subst scan_loop.simps) (simp add: Let_def)
    with all same tr show ?thesis by auto
  qed
qed

text \<open>
  When the server answers the chain of requests with the pages \<open>ps\<close>, the last of them
  with an absent or empty cursor, the scan returns.  It has then run the record loop over
  all items of all pages in the order they came; where the matcher returns on each of
  them, the result is one delete operation, made from the item's uri, for every item that
  matches, in that order, and the requests sent are those for the absent cursor and then
  for each cursor received, each for 100 records in reverse order.
\<close>

lemma scan_loop_collects_matches:
  assumes "serves e None ps"
  shows "\<exists>w'. scan_loop e d None [] w =
            Some (w', scan_records d (concat (map page_records ps)) []) \<and>
          ((\<forall>r \<in> set (concat (map page_records ps)). \<exists>b. matches d (record_value r) = Inr b) \<longrightarrow>
             scan_records d (concat (map page_records ps)) [] =
               Inr (map mk_delete
                      (filter (\<lambda>r. matches d (record_value r) = Inr True)
                         (concat (map page_records ps)))) \<and>
             trace w' = trace w @
               map (\<lambda>c. ListRecords \<lparr>lr_repo = session_did e, lr_collection = ''app.bsky.feed.post'',
                                     lr_limit = 100, lr_cursor = c, lr_reverse = True\<rparr>)
                 (None # map page_cursor (butlast ps)))"
proof -
  let ?items = "concat (map page_records ps)"
  from scan_loop_serves [OF assms, of d "[]" w] obtain w' where
    run: "scan_loop e d None [] w = Some (w', scan_records d ?items [])"
    and tr: "(\<exists>ds. scan_records d ?items [] = Inr ds) \<longrightarrow>
       trace w' = trace w @
         map (\<lambda>c'. ListRecords (list_request_for (session_did e) c'))
           (None # map page_cursor (butlast ps))"
    by auto
  have "scan_records d ?items [] =
          Inr (map mk_delete (filter (\<lambda>r. matches d (record_value r) = Inr True) ?items))"
    if "\<forall>r \<in> set ?items. \<exists>b. matches d (record_value r) = Inr b"
    using scan_records_all_return [OF that, of "[]"] by simp
  with run tr show ?thesis
    by (auto simp: list_request_for_def)
qed
lemma example_matches:
  "matches ''futura-sciences.com'' (record_value post_a) = Inr True"
  "matches ''futura-sciences.com'' (record_value post_b) = Inr False"
  "matches ''futura-sciences.com'' (record_value post_c) = Inr True"
  by (simp_all add: post_a_def post_b_def post_c_def matches_def or_empty_def check_embed_def)

lemma example_deletes:
  "mk_delete post_a = delete_of ''aaa''"
  "mk_delete post_b = delete_of ''bbb''"
  "mk_delete post_c = delete_of ''ccc''"
  by (simp_all add: post_a_def post_b_def post_c_def mk_delete_def delete_of_def getRecordId_def
      lastIndexOf_def slice_from_def slice_def)

lemma example_serves: "serves example_env None [page_one, page_two]"
  by (simp add: example_env_def list_request_for_def page_one_def page_two_def truthy_def)

lemma scan_loop_collects_matches_example:
  "serves example_env None [page_one, page_two] \<and>
   (\<exists>w'. scan_loop example_env ''futura-sciences.com'' None [] \<lparr>clock = 0, calls = 0, trace = []\<rparr> =
            Some (w', Inr [delete_of ''aaa'', delete_of ''ccc'']) \<and>
          trace w' =
            [ListRecords \<lparr>lr_repo = ''did:plc:me'', lr_collection = ''app.bsky.feed.post'',
                           lr_limit = 100, lr_cursor = None, lr_reverse = True\<rparr>,
             ListRecords \<lparr>lr_repo = ''did:plc:me'', lr_collection = ''app.bsky.feed.post'',
                           lr_limit = 100, lr_cursor = Some ''c1'', lr_reverse = True\<rparr>])"
proof -
  let ?items = "concat (map page_records [page_one, page_two])"
  let ?D = "''futura-sciences.com''"
  let ?w = "\<lparr>clock = 0, calls = 0, trace = []\<rparr>"
  have items: "?items = [post_a, post_b, post_c]"
    by (simp add: page_one_def page_two_def)
  have returns: "\<forall>r \<in> set ?items. \<exists>b. matches ?D (record_value r) = Inr b"
    unfolding items by (auto simp: example_matches)
  from scan_loop_collects_matches [OF example_serves, of ?D ?w] returns obtain w' where
    run: "scan_loop example_env ?D None [] ?w = Some (w', scan_records ?D ?items [])"
    and res: "scan_records ?D ?items [] =
       Inr (map mk_delete (filter (\<lambda>r. matches ?D (record_value r) = Inr True) ?items))"
    and tr: "trace w' = trace ?w @
       map (\<lambda>c. ListRecords \<lparr>lr_repo = session_did example_env,
                lr_collection = ''app.bsky.feed.post'', lr_limit = 100, lr_cursor = c,
                lr_reverse = True\<rparr>)
         (None # map page_cursor (butlast [page_one, page_two]))"
    by blast
  have "map mk_delete (filter (\<lambda>r. matches ?D (record_value r) = Inr True) ?items) =
      [delete_of ''aaa'', delete_of ''ccc'']"
    unfolding items by (simp add: example_matches example_deletes)
  with run res have "scan_loop example_env ?D None [] ?w =
      Some (w', Inr [delete_of ''aaa'', delete_of ''ccc''])"
    by simp
  moreover from tr have "trace w' =
      [ListRecords \<lparr>lr_repo = ''did:plc:me'', lr_collection = ''app.bsky.feed.post'',
                     lr_limit = 100, lr_cursor = None, lr_reverse = True\<rparr>,
       ListRecords \<lparr>lr_repo = ''did:plc:me'', lr_collection = ''app.bsky.feed.post'',
                     lr_limit = 100, lr_cursor = Some ''c1'', lr_reverse = True\<rparr>]"
    by (simp add: example_env_def page_one_def)
  ultimately show ?thesis using example_serves by blast
qed

text \<open>
  Claim C8 (the scan applies the matcher to every item of every page and returns one
  delete operation per match, in order) fails where the matcher throws.  On a single
  last page that holds \<open>post_d\<close>, whose link feature has no \<open>uri\<close>, in front of
  \<open>post_c\<close>, which matches, the scan ends with the \<open>TypeError\<close> of \<open>post_d\<close>:
  \<open>post_c\<close> is never looked at and no list is returned.
\<close>

theorem scan_loop_throws_on_bare_link:
  "scan_loop bare_env ''futura-sciences.com'' None [] \<lparr>clock = 0, calls = 0, trace = []\<rparr> =
     Some (\<lparr>clock = 0, calls = 0, trace = [ListRecords (list_request_for ''did:plc:me'' None)]\<rparr>,
           Inl TypeError) \<and>
   matches ''futura-sciences.com'' (record_value post_c) = Inr True"
proof
  have "matches ''futura-sciences.com'' (record_value post_d) = Inl TypeError"
    by (simp add: post_d_def matches_def or_empty_def)
  then have "scan_records ''futura-sciences.com'' [post_d, post_c] [] = Inl TypeError"
    by simp
  then show "scan_loop bare_env ''futura-sciences.com'' None [] \<lparr>clock = 0, calls = 0, trace = []\<rparr> =
     Some (\<lparr>clock = 0, calls = 0, trace = [ListRecords (list_request_for ''did:plc:me'' None)]\<rparr>,
           Inl TypeError)"
    by (subst scan_loop.simps) (simp add: bare_env_def example_env_def Let_def)
next
  show "matches ''futura-sciences.com'' (record_value post_c) = Inr True"
    by (rule example_matches)
qed

section \<open>Waiting after a rate limit\<close>





section \<open>The retry loop\<close>

lemma attempt_simps [simp]:
  "calls (attempt e idx chunk w) = calls w + 1"
  "clock (attempt e idx chunk w) = clock w + int (fst (applyWrites e (calls w)))"
  "trace (attempt e idx chunk w) = trace w @ [ApplyWrites idx chunk]"
  by (simp_all add: attempt_def)

lemma sleep_simps [simp]:
  "calls (sleep ms w) = calls w"
  "clock (sleep ms w) = clock w + ms"
  "trace (sleep ms w) = trace w @ [Sleep ms]"
  by (simp_all add: sleep_def)

lemma retry_loop_accepted:
  "snd (applyWrites e (calls w)) = Accepted \<Longrightarrow>
   retry_loop e idx chunk w =
     Some ((attempt e idx chunk w)\<lparr>trace := trace w @ [ApplyWrites idx chunk, Completed idx]\<rparr>, True)"
  by (subst retry_loop.simps) (simp add: Let_def)

lemma retry_loop_fatal:
  "snd (applyWrites e (calls w)) = Rejected err \<Longrightarrow> status err \<noteq> Some 429 \<Longrightarrow>
   retry_loop e idx chunk w =
     Some ((attempt e idx chunk w)\<lparr>trace := trace w @ [ApplyWrites idx chunk, ErrorPerforming idx err]\<rparr>,
           False)"
  by (subst retry_loop.simps) (simp add: Let_def)

lemma retry_loop_rate_limited:
  "snd (applyWrites e (calls w)) = Rejected err \<Longrightarrow> status err = Some 429 \<Longrightarrow>
   retry_loop e idx chunk w =
     retry_loop e idx chunk
       (sleep (wait_seconds err (clock (attempt e idx chunk w)) * 1000) (attempt e idx chunk w))"
  by (subst retry_loop.simps) (simp add: Let_def)

lemma retry_loop_backoff:
  assumes "is_rate_limit (snd (applyWrites e (calls w)))"
  shows "retry_loop e idx chunk w = retry_loop e idx chunk (backoff e idx chunk w)"
proof -
  from assms obtain err where rej: "snd (applyWrites e (calls w)) = Rejected err"
    and st: "status err = Some 429"
    by (auto simp: is_rate_limit_def split: reply.splits)
  from rej have "backoff e idx chunk w =
      sleep (wait_seconds err (clock (attempt e idx chunk w)) * 1000) (attempt e idx chunk w)"
    by (simp only: backoff_def reply.case)
  with retry_loop_rate_limited [OF rej st] show ?thesis by simp
qed

lemma calls_backoff [simp]: "calls (backoff e idx chunk w) = calls w + 1"
  by (simp add: backoff_def split: reply.splits)

lemma calls_after_retries [simp]: "calls (after_retries e idx chunk k w) = calls w + k"
  by (induction k arbitrary: w) simp_all

lemma retry_loop_after_retries:
  "\<forall>j<k. is_rate_limit (snd (applyWrites e (calls w + j))) \<Longrightarrow>
   retry_loop e idx chunk w = retry_loop e idx chunk (after_retries e idx chunk k w)"
proof (induction k arbitrary: w)
  case 0
  show ?case by simp
next
  case (Suc k)
  from Suc.prems have first: "is_rate_limit (snd (applyWrites e (calls w)))"
    by (metis add.right_neutral zero_less_Suc)
  have later: "\<forall>j<k. is_rate_limit (snd (applyWrites e (calls (backoff e idx chunk w) + j)))"
  proof (intro allI impI)
    fix j assume "j < k"
    then have "Suc j < Suc k" by simp
    with Suc.prems have "is_rate_limit (snd (applyWrites e (calls w + Suc j)))" by blast
    then show "is_rate_limit (snd (applyWrites e (calls (backoff e idx chunk w) + j)))" by simp
  qed
  from retry_loop_backoff [OF first] Suc.IH [OF later] show ?case by simp
qed

text \<open>
  What \<open>k\<close> rounds of rejected call and wait leave in the trace: \<open>k\<close> calls for the
  same batch with the same operations, and \<open>k\<close> sleeps.
\<close>

lemma trace_backoff:
  "is_rate_limit (snd (applyWrites e (calls w))) \<Longrightarrow>
   \<exists>ms. trace (backoff e idx chunk w) = trace w @ [ApplyWrites idx chunk, Sleep ms]"
  by (auto simp: is_rate_limit_def backoff_def split: reply.splits)

lemma trace_after_retries:
  "\<forall>j<k. is_rate_limit (snd (applyWrites e (calls w + j))) \<Longrightarrow>
   \<exists>evs. trace (after_retries e idx chunk k w) = trace w @ evs \<and>
         filter is_write evs = replicate k (ApplyWrites idx chunk) \<and>
         length (filter is_sleep evs) = k \<and>
         (\<forall>ev \<in> set evs. ev = ApplyWrites idx chunk \<or> is_sleep ev)"
proof (induction k arbitrary: w)
  case 0
  show ?case by simp
next
  case (Suc k)
  from Suc.prems have first: "is_rate_limit (snd (applyWrites e (calls w)))"
    by (metis add.right_neutral zero_less_Suc)
  have later: "\<forall>j<k. is_rate_limit (snd (applyWrites e (calls (backoff e idx chunk w) + j)))"
  proof (intro allI impI)
    fix j assume "j < k"
    then have "Suc j < Suc k" by simp
    with Suc.prems have "is_rate_limit (snd (applyWrites e (calls w + Suc j)))" by blast
    then show "is_rate_limit (snd (applyWrites e (calls (backoff e idx chunk w) + j)))" by simp
  qed
  from trace_backoff [OF first] obtain ms where
    one: "trace (backoff e idx chunk w) = trace w @ [ApplyWrites idx chunk, Sleep ms]" by blast
  from Suc.IH [OF later] obtain evs where
    rest: "trace (after_retries e idx chunk k (backoff e idx chunk w)) =
             trace (backoff e idx chunk w) @ evs"
    and w: "filter is_write evs = replicate k (ApplyWrites idx chunk)"
    and s: "length (filter is_sleep evs) = k"
    and a: "\<forall>ev \<in> set evs. ev = ApplyWrites idx chunk \<or> is_sleep ev"
    by blast
  let ?evs = "[ApplyWrites idx chunk, Sleep ms] @ evs"
  have "trace (after_retries e idx chunk (Suc k) w) = trace w @ ?evs"
    using one rest by simp
  moreover have "filter is_write ?evs = replicate (Suc k) (ApplyWrites idx chunk)"
    using w by simp
  moreover have "length (filter is_sleep ?evs) = Suc k" using s by simp
  moreover have "\<forall>ev \<in> set ?evs. ev = ApplyWrites idx chunk \<or> is_sleep ev" using a by simp
  ultimately show ?case by blast
qed

lemmas retry_loop_induct = retry_loop.raw_induct [rotated 1, consumes 1, case_names step]








section \<open>The quota governor and the dispatch loop\<close>

lemma quota_check_over:
  "deletesThisHour q + n > MAX_DELETES_PER_HOUR cfg - SAFE_MARGIN cfg \<Longrightarrow>
   clock w - hourWindowStart q < 3600000 \<Longrightarrow>
   quota_check cfg n w q =
     (sleep (3600000 - (clock w - hourWindowStart q)) w,
      \<lparr>hourWindowStart = clock w + (3600000 - (clock w - hourWindowStart q)),
       deletesThisHour = 0\<rparr>)"
  by (simp add: quota_check_def Let_def)

lemma quota_check_over_late:
  "deletesThisHour q + n > MAX_DELETES_PER_HOUR cfg - SAFE_MARGIN cfg \<Longrightarrow>
   \<not> clock w - hourWindowStart q < 3600000 \<Longrightarrow>
   quota_check cfg n w q = (w, \<lparr>hourWindowStart = clock w, deletesThisHour = 0\<rparr>)"
  by (simp add: quota_check_def Let_def)

lemma quota_check_within:
  "deletesThisHour q + n \<le> MAX_DELETES_PER_HOUR cfg - SAFE_MARGIN cfg \<Longrightarrow>
   quota_check cfg n w q = (w, q)"
  by (simp add: quota_check_def)

lemma quota_check_after:
  "deletesThisHour (snd (quota_check cfg n w q)) + n \<le> MAX_DELETES_PER_HOUR cfg - SAFE_MARGIN cfg \<or>
   deletesThisHour (snd (quota_check cfg n w q)) = 0 \<and>
   hourWindowStart (snd (quota_check cfg n w q)) = clock (fst (quota_check cfg n w q))"
  by (simp add: quota_check_def Let_def)

lemma quota_check_trace:
  "\<exists>evs. trace (fst (quota_check cfg n w q)) = trace w @ evs \<and> length evs \<le> 1 \<and>
         (\<forall>ev \<in> set evs. is_sleep ev)"
  by (simp add: quota_check_def Let_def)

lemma quota_check_calls [simp]: "calls (fst (quota_check cfg n w q)) = calls w"
  by (simp add: quota_check_def Let_def)

text \<open>
  The events of a retry loop that returns: calls for this batch with its operations,
  sleeps, and at the end the one log line that tells the outcome.
\<close>

lemma retry_loop_trace:
  assumes "retry_loop e idx chunk w = Some r"
  shows "\<exists>evs. trace (fst r) = trace w @ evs \<and>
           (\<forall>ev \<in> set evs. is_sleep ev \<or> event_batch ev = Some idx) \<and>
           (\<forall>ev \<in> set evs. is_write ev \<longrightarrow> ev = ApplyWrites idx chunk) \<and>
           (snd r \<longrightarrow> filter is_outcome evs = [Completed idx]) \<and>
           (\<not> snd r \<longrightarrow> (\<exists>err. filter is_outcome evs = [ErrorPerforming idx err]))"
  using assms
proof (induct rule: retry_loop_induct)
  case (step f e idx chunk w r)
  show ?case
  proof (cases "snd (applyWrites e (calls w))")
    case Accepted
    with step(2) have "r = ((attempt e idx chunk w)\<lparr>trace := trace w @ [ApplyWrites idx chunk, Completed idx]\<rparr>, True)"
      by (auto simp: Let_def)
    then have "trace (fst r) = trace w @ [ApplyWrites idx chunk, Completed idx]" "snd r"
      by simp_all
    then show ?thesis by (intro exI [of _ "[ApplyWrites idx chunk, Completed idx]"]) simp
  next
    case (Rejected err)
    show ?thesis
    proof (cases "status err = Some 429")
      case False
      with step(2) Rejected
      have "r = ((attempt e idx chunk w)\<lparr>trace := trace w @ [ApplyWrites idx chunk, ErrorPerforming idx err]\<rparr>, False)"
        by (auto simp: Let_def)
      then have "trace (fst r) = trace w @ [ApplyWrites idx chunk, ErrorPerforming idx err]" "\<not> snd r"
        by simp_all
      then show ?thesis
        by (intro exI [of _ "[ApplyWrites idx chunk, ErrorPerforming idx err]"]) simp
    next
      case True
      let ?ms = "wait_seconds err (clock (attempt e idx chunk w)) * 1000"
      let ?w' = "sleep ?ms (attempt e idx chunk w)"
      from step(2) Rejected True have "f e idx chunk ?w' = Some r"
        by (simp add: Let_def)
      from step(1) [OF this] obtain evs where
        tr: "trace (fst r) = trace ?w' @ evs"
        and a: "\<forall>ev \<in> set evs. is_sleep ev \<or> event_batch ev = Some idx"
        and b: "\<forall>ev \<in> set evs. is_write ev \<longrightarrow> ev = ApplyWrites idx chunk"
        and c: "snd r \<longrightarrow> filter is_outcome evs = [Completed idx]"
        and d: "\<not> snd r \<longrightarrow> (\<exists>err. filter is_outcome evs = [ErrorPerforming idx err])"
        by blast
      let ?evs = "[ApplyWrites idx chunk, Sleep ?ms] @ evs"
      have "trace (fst r) = trace w @ ?evs" using tr by simp
      moreover have "\<forall>ev \<in> set ?evs. is_sleep ev \<or> event_batch ev = Some idx" using a by simp
      moreover have "\<forall>ev \<in> set ?evs. is_write ev \<longrightarrow> ev = ApplyWrites idx chunk" using b by simp
      moreover have "snd r \<longrightarrow> filter is_outcome ?evs = [Completed idx]" using c by simp
      moreover have "\<not> snd r \<longrightarrow> (\<exists>err. filter is_outcome ?evs = [ErrorPerforming idx err])"
        using d by simp
      ultimately show ?thesis by blast
    qed
  qed
qed

text \<open>One round of the dispatch loop, by the outcome of the retry loop.\<close>

lemma dispatch_loop_success:
  "quota_check cfg (int (length chunk)) w q = (w1, q1) \<Longrightarrow>
   retry_loop e idx chunk w1 = Some (w2, True) \<Longrightarrow>
   dispatch_loop cfg e idx (chunk # rest) w q =
     dispatch_loop cfg e (idx + 1) rest (sleep (DELAY_BETWEEN_BATCHES_MS cfg) w2)
       (q1\<lparr>deletesThisHour := deletesThisHour q1 + int (length chunk)\<rparr>)"
  by simp

lemma dispatch_loop_failure:
  "quota_check cfg (int (length chunk)) w q = (w1, q1) \<Longrightarrow>
   retry_loop e idx chunk w1 = Some (w2, False) \<Longrightarrow>
   dispatch_loop cfg e idx (chunk # rest) w q = Some (w2, q1, False)"
  by simp

lemma dispatch_loop_stuck:
  "quota_check cfg (int (length chunk)) w q = (w1, q1) \<Longrightarrow>
   retry_loop e idx chunk w1 = None \<Longrightarrow>
   dispatch_loop cfg e idx (chunk # rest) w q = None"
  by simp

lemma dispatch_loop_append:
  "dispatch_loop cfg e idx (pre @ rest) w q =
     (case dispatch_loop cfg e idx pre w q of
        None \<Rightarrow> None
      | Some (w', q', fin) \<Rightarrow>
          if fin then dispatch_loop cfg e (idx + length pre) rest w' q' else Some (w', q', False))"
proof (induction pre arbitrary: idx w q)
  case Nil
  show ?case by simp
next
  case (Cons chunk pre)
  obtain w1 q1 where qc: "quota_check cfg (int (length chunk)) w q = (w1, q1)"
    by (cases "quota_check cfg (int (length chunk)) w q")
  show ?case
  proof (cases "retry_loop e idx chunk w1")
    case None
    with qc show ?thesis by simp
  next
    case (Some r)
    obtain w2 success where r: "r = (w2, success)" by (cases r)
    show ?thesis
    proof (cases success)
      case False
      with qc Some r show ?thesis by simp
    next
      case True
      with qc Some r Cons.IH [of "idx + 1"] show ?thesis
        by (simp split: option.splits prod.splits)
    qed
  qed
qed

text \<open>
  The events of a dispatch loop that returns: every event of a batch belongs to one of
  the batches of the list, every call carries one whole batch under its own index, and
  when the loop ran to its end every batch was completed, in order.
\<close>

lemma dispatch_loop_trace:
  "dispatch_loop cfg e idx chunks w q = Some (w', q', fin) \<Longrightarrow>
   \<exists>evs. trace w' = trace w @ evs \<and>
         (\<forall>ev \<in> set evs. \<forall>i. event_batch ev = Some i \<longrightarrow> idx \<le> i \<and> i < idx + length chunks) \<and>
         (\<forall>ev \<in> set evs. is_write ev \<longrightarrow> (\<exists>i<length chunks. ev = ApplyWrites (idx + i) (chunks ! i))) \<and>
         (fin \<longrightarrow> filter is_outcome evs = map Completed [idx ..< idx + length chunks])"
proof (induction chunks arbitrary: idx w q)
  case Nil
  then show ?case by simp
next
  case (Cons chunk rest)
  obtain w1 q1 where qc: "quota_check cfg (int (length chunk)) w q = (w1, q1)"
    by (cases "quota_check cfg (int (length chunk)) w q")
  from quota_check_trace [of cfg "int (length chunk)" w q] qc obtain evs0 where
    t0: "trace w1 = trace w @ evs0" and s0: "\<forall>ev \<in> set evs0. is_sleep ev"
    by auto
  have sleep_no_batch: "event_batch ev = None \<and> \<not> is_write ev \<and> \<not> is_outcome ev"
    if "is_sleep ev" for ev
    using that by (cases ev) simp_all
  from Cons.prems qc obtain r where run: "retry_loop e idx chunk w1 = Some r"
    by (cases "retry_loop e idx chunk w1") auto
  obtain w2 success where r: "r = (w2, success)" by (cases r)
  from retry_loop_trace [OF run] r obtain evs1 where
    t1: "trace w2 = trace w1 @ evs1"
    and a1: "\<forall>ev \<in> set evs1. is_sleep ev \<or> event_batch ev = Some idx"
    and b1: "\<forall>ev \<in> set evs1. is_write ev \<longrightarrow> ev = ApplyWrites idx chunk"
    and c1: "success \<longrightarrow> filter is_outcome evs1 = [Completed idx]"
    by auto
  have in1: "\<forall>ev \<in> set (evs0 @ evs1). \<forall>i. event_batch ev = Some i \<longrightarrow> i = idx"
    using s0 a1 sleep_no_batch by auto
  have wr1: "\<forall>ev \<in> set (evs0 @ evs1). is_write ev \<longrightarrow> ev = ApplyWrites idx chunk"
    using s0 b1 sleep_no_batch by auto
  have out0: "filter is_outcome evs0 = []"
    using s0 sleep_no_batch by (simp add: filter_empty_conv)
  show ?case
  proof (cases success)
    case False
    with Cons.prems qc run r have res: "w' = w2" "fin = False" by simp_all
    have "trace w' = trace w @ (evs0 @ evs1)" using res t0 t1 by simp
    moreover have "\<forall>ev \<in> set (evs0 @ evs1). \<forall>i. event_batch ev = Some i \<longrightarrow>
        idx \<le> i \<and> i < idx + length (chunk # rest)"
      using in1 by auto
    moreover have "\<forall>ev \<in> set (evs0 @ evs1). is_write ev \<longrightarrow>
        (\<exists>i<length (chunk # rest). ev = ApplyWrites (idx + i) ((chunk # rest) ! i))"
      using wr1 by (auto intro: exI [of _ 0])
    ultimately show ?thesis using res by blast
  next
    case True
    let ?w3 = "sleep (DELAY_BETWEEN_BATCHES_MS cfg) w2"
    let ?q3 = "q1\<lparr>deletesThisHour := deletesThisHour q1 + int (length chunk)\<rparr>"
    from Cons.prems qc run r True
    have "dispatch_loop cfg e (idx + 1) rest ?w3 ?q3 = Some (w', q', fin)" by simp
    from Cons.IH [OF this] obtain evs2 where
      t2: "trace w' = trace ?w3 @ evs2"
      and a2: "\<forall>ev \<in> set evs2. \<forall>i. event_batch ev = Some i \<longrightarrow> idx + 1 \<le> i \<and> i < idx + 1 + length rest"
      and b2: "\<forall>ev \<in> set evs2. is_write ev \<longrightarrow> (\<exists>i<length rest. ev = ApplyWrites (idx + 1 + i) (rest ! i))"
      and c2: "fin \<longrightarrow> filter is_outcome evs2 = map Completed [idx + 1 ..< idx + 1 + length rest]"
      by blast
    let ?evs = "evs0 @ evs1 @ [Sleep (DELAY_BETWEEN_BATCHES_MS cfg)] @ evs2"
    have "trace w' = trace w @ ?evs" using t0 t1 t2 by simp
    moreover have "\<forall>ev \<in> set ?evs. \<forall>i. event_batch ev = Some i \<longrightarrow>
        idx \<le> i \<and> i < idx + length (chunk # rest)"
    proof (intro ballI allI impI)
      fix ev i assume "ev \<in> set ?evs" and b: "event_batch ev = Some i"
      then consider "ev \<in> set (evs0 @ evs1)" | "ev \<in> set evs2" by auto
      then show "idx \<le> i \<and> i < idx + length (chunk # rest)"
      proof cases
        case 1
        with in1 b have "i = idx" by blast
        then show ?thesis by simp
      next
        case 2
        with a2 b have "idx + 1 \<le> i \<and> i < idx + 1 + length rest" by blast
        then show ?thesis by simp
      qed
    qed
    moreover have "\<forall>ev \<in> set ?evs. is_write ev \<longrightarrow>
        (\<exists>i<length (chunk # rest). ev = ApplyWrites (idx + i) ((chunk # rest) ! i))"
    proof (intro ballI impI)
      fix ev assume "ev \<in> set ?evs" and wr: "is_write ev"
      then consider "ev \<in> set (evs0 @ evs1)" | "ev \<in> set evs2" by auto
      then show "\<exists>i<length (chunk # rest). ev = ApplyWrites (idx + i) ((chunk # rest) ! i)"
      proof cases
        case 1
        with wr1 wr have "ev = ApplyWrites (idx + 0) ((chunk # rest) ! 0)" by simp
        then show ?thesis by (intro exI [of _ 0]) simp
      next
        case 2
        with b2 wr obtain i where "i < length rest" "ev = ApplyWrites (idx + 1 + i) (rest ! i)"
          by blast
        then show ?thesis by (intro exI [of _ "Suc i"]) simp
      qed
    qed
    moreover have "fin \<longrightarrow> filter is_outcome ?evs = map Completed [idx ..< idx + length (chunk # rest)]"
    proof
      assume fin
      with c2 have f2: "filter is_outcome evs2 = map Completed [idx + 1 ..< idx + 1 + length rest]"
        by simp
      have "filter is_outcome ?evs = Completed idx # filter is_outcome evs2"
        using out0 c1 True by simp
      also have "\<dots> = map Completed (idx # [idx + 1 ..< idx + 1 + length rest])"
        using f2 by (simp only: list.map)
      also have "idx # [idx + 1 ..< idx + 1 + length rest] = [idx ..< idx + length (chunk # rest)]"
        by (simp add: upt_conv_Cons del: upt_Suc)
      finally show "filter is_outcome ?evs = map Completed [idx ..< idx + length (chunk # rest)]" .
    qed
    ultimately show ?thesis by blast
  qed
qed
text \<open>
  Claim C3: before each batch of \<open>n\<close> operations is sent, the governor compares
  \<open>deletesThisHour + n\<close> with \<open>MAX_DELETES_PER_HOUR - SAFE_MARGIN\<close>.  Above it, the script
  sleeps for exactly what is left of the hour when less than an hour has passed since
  \<open>hourWindowStart\<close>, and in either case the window starts anew at the current time with
  a count of 0; otherwise nothing is waited for and nothing changes.  So at the moment of
  dispatch the count plus \<open>n\<close> is within the threshold or the count has just been reset
  to 0, and the count is within a threshold that is not negative.  The check takes at most
  one sleep, also for a batch that is larger than the threshold by itself; the batch is
  then sent whole under its index, the count grows by \<open>n\<close> when the batch succeeded and
  stays as it is when it did not.
\<close>

theorem quota_check_governs_dispatch:
  "(deletesThisHour q + n > MAX_DELETES_PER_HOUR cfg - SAFE_MARGIN cfg \<and>
      clock w - hourWindowStart q < 3600000 \<longrightarrow>
      quota_check cfg n w q =
        (sleep (3600000 - (clock w - hourWindowStart q)) w,
         \<lparr>hourWindowStart = clock w + (3600000 - (clock w - hourWindowStart q)),
          deletesThisHour = 0\<rparr>)) \<and>
   (deletesThisHour q + n > MAX_DELETES_PER_HOUR cfg - SAFE_MARGIN cfg \<and>
      \<not> clock w - hourWindowStart q < 3600000 \<longrightarrow>
      quota_check cfg n w q = (w, \<lparr>hourWindowStart = clock w, deletesThisHour = 0\<rparr>)) \<and>
   (deletesThisHour q + n \<le> MAX_DELETES_PER_HOUR cfg - SAFE_MARGIN cfg \<longrightarrow>
      quota_check cfg n w q = (w, q)) \<and>
   (deletesThisHour (snd (quota_check cfg n w q)) + n
        \<le> MAX_DELETES_PER_HOUR cfg - SAFE_MARGIN cfg \<or>
      deletesThisHour (snd (quota_check cfg n w q)) = 0 \<and>
      hourWindowStart (snd (quota_check cfg n w q)) = clock (fst (quota_check cfg n w q))) \<and>
   (0 \<le> n \<and> 0 \<le> MAX_DELETES_PER_HOUR cfg - SAFE_MARGIN cfg \<longrightarrow>
      deletesThisHour (snd (quota_check cfg n w q))
        \<le> MAX_DELETES_PER_HOUR cfg - SAFE_MARGIN cfg) \<and>
   (MAX_DELETES_PER_HOUR cfg - SAFE_MARGIN cfg < n \<and> 0 \<le> deletesThisHour q \<longrightarrow>
      deletesThisHour (snd (quota_check cfg n w q)) = 0 \<and>
      hourWindowStart (snd (quota_check cfg n w q)) = clock (fst (quota_check cfg n w q))) \<and>
   (\<exists>evs. trace (fst (quota_check cfg n w q)) = trace w @ evs \<and> length evs \<le> 1 \<and>
      (\<forall>ev \<in> set evs. is_sleep ev)) \<and>
   (\<forall>w1 q1 w2. quota_check cfg (int (length chunk)) w q = (w1, q1) \<and>
        retry_loop e idx chunk w1 = Some (w2, True) \<longrightarrow>
      dispatch_loop cfg e idx (chunk # rest) w q =
        dispatch_loop cfg e (idx + 1) rest (sleep (DELAY_BETWEEN_BATCHES_MS cfg) w2)
          (q1\<lparr>deletesThisHour := deletesThisHour q1 + int (length chunk)\<rparr>)) \<and>
   (\<forall>w1 q1 w2. quota_check cfg (int (length chunk)) w q = (w1, q1) \<and>
        retry_loop e idx chunk w1 = Some (w2, False) \<longrightarrow>
      dispatch_loop cfg e idx (chunk # rest) w q = Some (w2, q1, False)) \<and>
   (\<forall>w' q' fin. dispatch_loop cfg e idx chunks w q = Some (w', q', fin) \<longrightarrow>
      (\<exists>evs. trace w' = trace w @ evs \<and>
         (\<forall>ev \<in> set evs. is_write ev \<longrightarrow>
            (\<exists>i<length chunks. ev = ApplyWrites (idx + i) (chunks ! i)))))"
proof -
  let ?thr = "MAX_DELETES_PER_HOUR cfg - SAFE_MARGIN cfg"
  let ?qc = "quota_check cfg n w q"
  have c1: "deletesThisHour q + n > ?thr \<and> clock w - hourWindowStart q < 3600000 \<longrightarrow>
      ?qc = (sleep (3600000 - (clock w - hourWindowStart q)) w,
         \<lparr>hourWindowStart = clock w + (3600000 - (clock w - hourWindowStart q)),
          deletesThisHour = 0\<rparr>)"
    using quota_check_over [of cfg q n w] by blast
  have c2: "deletesThisHour q + n > ?thr \<and> \<not> clock w - hourWindowStart q < 3600000 \<longrightarrow>
      ?qc = (w, \<lparr>hourWindowStart = clock w, deletesThisHour = 0\<rparr>)"
    using quota_check_over_late [of cfg q n w] by blast
  have c3: "deletesThisHour q + n \<le> ?thr \<longrightarrow> ?qc = (w, q)"
    using quota_check_within [of q n cfg w] by blast
  have c4: "deletesThisHour (snd ?qc) + n \<le> ?thr \<or>
      deletesThisHour (snd ?qc) = 0 \<and> hourWindowStart (snd ?qc) = clock (fst ?qc)"
    by (rule quota_check_after)
  have c5: "0 \<le> n \<and> 0 \<le> ?thr \<longrightarrow> deletesThisHour (snd ?qc) \<le> ?thr"
    using c4 by auto
  have c6: "?thr < n \<and> 0 \<le> deletesThisHour q \<longrightarrow>
      deletesThisHour (snd ?qc) = 0 \<and> hourWindowStart (snd ?qc) = clock (fst ?qc)"
    by (simp add: quota_check_def Let_def)
  have c7: "\<exists>evs. trace (fst ?qc) = trace w @ evs \<and> length evs \<le> 1 \<and> (\<forall>ev \<in> set evs. is_sleep ev)"
    by (rule quota_check_trace)
  have c8: "\<forall>w1 q1 w2. quota_check cfg (int (length chunk)) w q = (w1, q1) \<and>
        retry_loop e idx chunk w1 = Some (w2, True) \<longrightarrow>
      dispatch_loop cfg e idx (chunk # rest) w q =
        dispatch_loop cfg e (idx + 1) rest (sleep (DELAY_BETWEEN_BATCHES_MS cfg) w2)
          (q1\<lparr>deletesThisHour := deletesThisHour q1 + int (length chunk)\<rparr>)"
    using dispatch_loop_success [of cfg chunk w q _ _ e idx _ rest] by blast
  have c9: "\<forall>w1 q1 w2. quota_check cfg (int (length chunk)) w q = (w1, q1) \<and>
        retry_loop e idx chunk w1 = Some (w2, False) \<longrightarrow>
      dispatch_loop cfg e idx (chunk # rest) w q = Some (w2, q1, False)"
    using dispatch_loop_failure [of cfg chunk w q _ _ e idx _ rest] by blast
  have c10: "\<forall>w' q' fin. dispatch_loop cfg e idx chunks w q = Some (w', q', fin) \<longrightarrow>
      (\<exists>evs. trace w' = trace w @ evs \<and>
         (\<forall>ev \<in> set evs. is_write ev \<longrightarrow>
            (\<exists>i<length chunks. ev = ApplyWrites (idx + i) (chunks ! i))))"
  proof (intro allI impI)
    fix w' q' fin
    assume "dispatch_loop cfg e idx chunks w q = Some (w', q', fin)"
    from dispatch_loop_trace [OF this] show "\<exists>evs. trace w' = trace w @ evs \<and>
         (\<forall>ev \<in> set evs. is_write ev \<longrightarrow>
            (\<exists>i<length chunks. ev = ApplyWrites (idx + i) (chunks ! i)))"
      by blast
  qed
  from c1 c2 c3 c4 c5 c6 c7 c8 c9 c10 show ?thesis by (intro conjI)
qed

theorem quota_check_governs_dispatch_witness:
  "deletesThisHour \<lparr>hourWindowStart = 0, deletesThisHour = 4800\<rparr> + 200
     > MAX_DELETES_PER_HOUR source_config - SAFE_MARGIN source_config \<and>
   clock \<lparr>clock = 600000, calls = 0, trace = []\<rparr>
     - hourWindowStart \<lparr>hourWindowStart = 0, deletesThisHour = 4800\<rparr> < 3600000 \<and>
   quota_check source_config 200 \<lparr>clock = 600000, calls = 0, trace = []\<rparr>
       \<lparr>hourWindowStart = 0, deletesThisHour = 4800\<rparr> =
     (\<lparr>clock = 3600000, calls = 0, trace = [Sleep 3000000]\<rparr>,
      \<lparr>hourWindowStart = 3600000, deletesThisHour = 0\<rparr>)"
proof -
  let ?q = "\<lparr>hourWindowStart = 0, deletesThisHour = 4800\<rparr>"
  let ?w = "\<lparr>clock = 600000, calls = 0, trace = []\<rparr>"
  have h: "deletesThisHour ?q + 200 > MAX_DELETES_PER_HOUR source_config - SAFE_MARGIN source_config \<and>
      clock ?w - hourWindowStart ?q < 3600000"
    by (simp add: source_config_def)
  from quota_check_governs_dispatch [where q = ?q and n = 200 and cfg = source_config and w = ?w
      and chunk = "[]" and e = example_env and idx = 0 and rest = "[]" and chunks = "[]"]
  have "deletesThisHour ?q + 200 > MAX_DELETES_PER_HOUR source_config - SAFE_MARGIN source_config \<and>
      clock ?w - hourWindowStart ?q < 3600000 \<longrightarrow>
      quota_check source_config 200 ?w ?q =
        (sleep (3600000 - (clock ?w - hourWindowStart ?q)) ?w,
         \<lparr>hourWindowStart = clock ?w + (3600000 - (clock ?w - hourWindowStart ?q)),
          deletesThisHour = 0\<rparr>)"
    by (elim conjE)
  with h have "quota_check source_config 200 ?w ?q =
        (sleep (3600000 - (clock ?w - hourWindowStart ?q)) ?w,
         \<lparr>hourWindowStart = clock ?w + (3600000 - (clock ?w - hourWindowStart ?q)),
          deletesThisHour = 0\<rparr>)"
    by blast
  then have "quota_check source_config 200 ?w ?q =
     (\<lparr>clock = 3600000, calls = 0, trace = [Sleep 3000000]\<rparr>,
      \<lparr>hourWindowStart = 3600000, deletesThisHour = 0\<rparr>)"
    by (simp add: sleep_def)
  with h show ?thesis by blast
qed

text \<open>
  Claim C5: when the batches before batch \<open>k\<close> have all succeeded and a call for batch
  \<open>k\<close> is rejected with an error that is not a 429, the loop is left at once: the
  outcomes logged are \<open>Completed\<close> for each earlier batch and the error for batch \<open>k\<close>,
  the rejected call is the last call and the error line the last event, the count of the
  governor is not raised for batch \<open>k\<close>, and no event belongs to a later batch, whatever
  batches follow.
\<close>

theorem dispatch_loop_halts_on_write_failure:
  assumes before: "dispatch_loop cfg e idx pre w q = Some (w1, q1, True)"
    and check: "quota_check cfg (int (length chunk)) w1 q1 = (w2, q2)"
    and limited: "\<forall>j<r. is_rate_limit (snd (applyWrites e (calls w2 + j)))"
    and failed: "snd (applyWrites e (calls w2 + r)) = Rejected err"
    and fatal: "status err \<noteq> Some 429"
  shows "\<exists>w3 evs. dispatch_loop cfg e idx (pre @ chunk # post) w q = Some (w3, q2, False) \<and>
           trace w3 = trace w @ evs \<and>
           filter is_outcome evs =
             map Completed [idx ..< idx + length pre] @ [ErrorPerforming (idx + length pre) err] \<and>
           last evs = ErrorPerforming (idx + length pre) err \<and>
           calls w3 = calls w2 + r + 1 \<and>
           (\<forall>ev \<in> set evs. \<forall>i. event_batch ev = Some i \<longrightarrow> i \<le> idx + length pre) \<and>
           (\<forall>ev \<in> set evs. is_write ev \<longrightarrow>
              (\<exists>i\<le>length pre. ev = ApplyWrites (idx + i) ((pre @ [chunk]) ! i)))"
proof -
  let ?k = "idx + length pre"
  let ?wr = "after_retries e ?k chunk r w2"
  let ?w3 = "(attempt e ?k chunk ?wr)\<lparr>trace := trace ?wr @ [ApplyWrites ?k chunk, ErrorPerforming ?k err]\<rparr>"
  have sleep_plain: "event_batch ev = None \<and> \<not> is_write ev \<and> \<not> is_outcome ev"
    if "is_sleep ev" for ev
    using that by (cases ev) simp_all
  from failed have "snd (applyWrites e (calls ?wr)) = Rejected err" by simp
  from retry_loop_fatal [OF this fatal, of ?k chunk] retry_loop_after_retries [OF limited, of ?k chunk]
  have retry: "retry_loop e ?k chunk w2 = Some (?w3, False)" by simp
  have "dispatch_loop cfg e idx (pre @ chunk # post) w q =
      dispatch_loop cfg e ?k (chunk # post) w1 q1"
    using before by (simp add: dispatch_loop_append)
  also have "\<dots> = Some (?w3, q2, False)"
    using dispatch_loop_failure [OF check retry] .
  finally have run: "dispatch_loop cfg e idx (pre @ chunk # post) w q = Some (?w3, q2, False)" .
  from dispatch_loop_trace [OF before] obtain evs1 where
    t1: "trace w1 = trace w @ evs1"
    and a1: "\<forall>ev \<in> set evs1. \<forall>i. event_batch ev = Some i \<longrightarrow> idx \<le> i \<and> i < ?k"
    and b1: "\<forall>ev \<in> set evs1. is_write ev \<longrightarrow> (\<exists>i<length pre. ev = ApplyWrites (idx + i) (pre ! i))"
    and c1: "filter is_outcome evs1 = map Completed [idx ..< ?k]"
    by auto
  from quota_check_trace [of cfg "int (length chunk)" w1 q1] check obtain evs0 where
    t0: "trace w2 = trace w1 @ evs0" and s0: "\<forall>ev \<in> set evs0. is_sleep ev"
    by auto
  from trace_after_retries [OF limited, of ?k chunk] obtain evsr where
    tr: "trace ?wr = trace w2 @ evsr"
    and ar: "\<forall>ev \<in> set evsr. ev = ApplyWrites ?k chunk \<or> is_sleep ev"
    by blast
  let ?tail = "evs0 @ evsr @ [ApplyWrites ?k chunk, ErrorPerforming ?k err]"
  let ?evs = "evs1 @ ?tail"
  have tail_batch: "\<forall>ev \<in> set ?tail. \<forall>i. event_batch ev = Some i \<longrightarrow> i = ?k"
    using s0 ar sleep_plain by auto
  have tail_write: "\<forall>ev \<in> set ?tail. is_write ev \<longrightarrow> ev = ApplyWrites ?k chunk"
    using s0 ar sleep_plain by auto
  have "filter is_outcome evs0 = []" "filter is_outcome evsr = []"
    using s0 ar sleep_plain by (auto simp: filter_empty_conv)
  then have tail_out: "filter is_outcome ?tail = [ErrorPerforming ?k err]" by simp
  have trace: "trace ?w3 = trace w @ ?evs" using t1 t0 tr by simp
  have outcomes: "filter is_outcome ?evs = map Completed [idx ..< ?k] @ [ErrorPerforming ?k err]"
    using c1 tail_out by simp
  have lst: "last ?evs = ErrorPerforming ?k err" by simp
  have cnt: "calls ?w3 = calls w2 + r + 1" by simp
  have batches: "\<forall>ev \<in> set ?evs. \<forall>i. event_batch ev = Some i \<longrightarrow> i \<le> ?k"
  proof (intro ballI allI impI)
    fix ev i assume "ev \<in> set ?evs" and b: "event_batch ev = Some i"
    then consider "ev \<in> set evs1" | "ev \<in> set ?tail" by auto
    then show "i \<le> ?k"
    proof cases
      case 1
      with a1 b have "i < ?k" by blast
      then show ?thesis by simp
    next
      case 2
      with tail_batch b show ?thesis by blast
    qed
  qed
  have writes: "\<forall>ev \<in> set ?evs. is_write ev \<longrightarrow>
      (\<exists>i\<le>length pre. ev = ApplyWrites (idx + i) ((pre @ [chunk]) ! i))"
  proof (intro ballI impI)
    fix ev assume "ev \<in> set ?evs" and wr: "is_write ev"
    then consider "ev \<in> set evs1" | "ev \<in> set ?tail" by auto
    then show "\<exists>i\<le>length pre. ev = ApplyWrites (idx + i) ((pre @ [chunk]) ! i)"
    proof cases
      case 1
      with b1 wr obtain i where "i < length pre" "ev = ApplyWrites (idx + i) (pre ! i)" by blast
      then show ?thesis by (intro exI [of _ i]) (simp add: nth_append)
    next
      case 2
      with tail_write wr have "ev = ApplyWrites ?k chunk" by blast
      then show ?thesis by (intro exI [of _ "length pre"]) simp
    qed
  qed
  from run trace outcomes lst cnt batches writes show ?thesis by blast
qed

lemma failing_env_first_batch:
  "dispatch_loop source_config failing_env 0 [[delete_of ''aaa'']]
     \<lparr>clock = 0, calls = 0, trace = []\<rparr> \<lparr>hourWindowStart = 0, deletesThisHour = 0\<rparr> =
   Some (\<lparr>clock = 5010, calls = 1,
           trace = [ApplyWrites 0 [delete_of ''aaa''], Completed 0, Sleep 5000]\<rparr>,
         \<lparr>hourWindowStart = 0, deletesThisHour = 1\<rparr>, True)"
proof -
  have "retry_loop failing_env 0 [delete_of ''aaa''] \<lparr>clock = 0, calls = 0, trace = []\<rparr> =
      Some (\<lparr>clock = 10, calls = 1, trace = [ApplyWrites 0 [delete_of ''aaa''], Completed 0]\<rparr>, True)"
    by (subst retry_loop_accepted)
      (simp_all add: failing_env_def example_env_def attempt_def)
  then show ?thesis
    by (simp add: quota_check_def source_config_def sleep_def)
qed

theorem dispatch_loop_halts_on_write_failure_witness:
  "\<exists>w3 evs.
     dispatch_loop source_config failing_env 0
       [[delete_of ''aaa''], [delete_of ''bbb''], [delete_of ''ccc'']]
       \<lparr>clock = 0, calls = 0, trace = []\<rparr> \<lparr>hourWindowStart = 0, deletesThisHour = 0\<rparr> =
       Some (w3, \<lparr>hourWindowStart = 0, deletesThisHour = 1\<rparr>, False) \<and>
     trace w3 = evs \<and>
     filter is_outcome evs =
       [Completed 0, ErrorPerforming 1 \<lparr>status = Some 500, headers = None\<rparr>] \<and>
     last evs = ErrorPerforming 1 \<lparr>status = Some 500, headers = None\<rparr> \<and>
     calls w3 = 2"
proof -
  let ?w = "\<lparr>clock = 0, calls = 0, trace = []\<rparr>"
  let ?q = "\<lparr>hourWindowStart = 0, deletesThisHour = 0\<rparr>"
  let ?w1 = "\<lparr>clock = 5010, calls = 1,
              trace = [ApplyWrites 0 [delete_of ''aaa''], Completed 0, Sleep 5000]\<rparr>"
  let ?q1 = "\<lparr>hourWindowStart = 0, deletesThisHour = 1\<rparr>"
  let ?err = "\<lparr>status = Some 500, headers = None\<rparr>"
  have check: "quota_check source_config (int (length [delete_of ''bbb''])) ?w1 ?q1 = (?w1, ?q1)"
    by (simp add: quota_check_def source_config_def)
  have limited: "\<forall>j<0. is_rate_limit (snd (applyWrites failing_env (calls ?w1 + j)))"
    by simp
  have failed: "snd (applyWrites failing_env (calls ?w1 + 0)) = Rejected ?err"
    by (simp add: failing_env_def)
  have fatal: "status ?err \<noteq> Some 429" by simp
  from dispatch_loop_halts_on_write_failure
    [OF failing_env_first_batch check limited failed fatal, of "[[delete_of ''ccc'']]"]
  obtain w3 evs where
    run: "dispatch_loop source_config failing_env 0
            ([[delete_of ''aaa'']] @ [delete_of ''bbb''] # [[delete_of ''ccc'']]) ?w ?q =
          Some (w3, ?q1, False)"
    and tr: "trace w3 = trace ?w @ evs"
    and out: "filter is_outcome evs =
        map Completed [0 ..< 0 + length [[delete_of ''aaa'']]] @
        [ErrorPerforming (0 + length [[delete_of ''aaa'']]) ?err]"
    and lst: "last evs = ErrorPerforming (0 + length [[delete_of ''aaa'']]) ?err"
    and cnt: "calls w3 = calls ?w1 + 0 + 1"
    by blast
  from run have "dispatch_loop source_config failing_env 0
       [[delete_of ''aaa''], [delete_of ''bbb''], [delete_of ''ccc'']] ?w ?q =
       Some (w3, ?q1, False)"
    by (simp only: append.simps)
  moreover from tr have "trace w3 = evs" by simp
  moreover from out have "filter is_outcome evs = [Completed 0, ErrorPerforming 1 ?err]" by simp
  moreover from lst have "last evs = ErrorPerforming 1 ?err" by simp
  moreover from cnt have "calls w3 = 2" by simp
  ultimately show ?thesis by blast
qed

section \<open>A batch size that is not positive\<close>




lemma chunked_empty: "chunked [] sz = Some []"
  by (simp add: chunked_def chunked_loop.simps)













end
